theory Spec2Isabelle
  imports Main
begin

section \<open>ros\_loader: resolving ROS type strings to classes\<close>

text \<open>
  A shallow embedding of \<^verbatim>\<open>rosbridge_library/internal/ros_loader.py\<close>.
  Type strings are Python \<^verbatim>\<open>str\<close> values, modelled as \<^typ>\<open>string\<close>: a
  \<^typ>\<open>char\<close> stands for the code point of the same number, so the model covers the
  strings whose code points are below 256 (ASCII and the Latin-1 supplement). The
  character classes of the regular expression are the ASCII ranges \<^verbatim>\<open>[A-Z]\<close>,
  \<^verbatim>\<open>[a-z]\<close> and \<^verbatim>\<open>[0-9]\<close>; \<^verbatim>\<open>str.lower()\<close> lowercases every cased character,
  also those outside ASCII.
  The module system (\<^verbatim>\<open>importlib.import_module\<close>, \<^verbatim>\<open>getattr\<close>) is outside the
  file: it is a parameter of the model, and every call made to it is recorded in the
  state, so that "the provider was not consulted" is a statement about that record.
  The two locks only bracket a single dictionary read or write; in the sequential model
  acquiring and releasing them leaves the state as it is.
\<close>

subsection \<open>Python string primitives\<close>

text \<open>\<^verbatim>\<open>s.split(sep)\<close> for a non-empty separator: scan from the left, cut at every
  occurrence of the separator, continue behind it.\<close>

function split_aux :: "string \<Rightarrow> string \<Rightarrow> string \<Rightarrow> string list" where
  "split_aux sep acc [] = [rev acc]"
| "split_aux sep acc (c # cs) =
     (if sep \<noteq> [] \<and> take (length sep) (c # cs) = sep
      then rev acc # split_aux sep [] (drop (length sep) (c # cs))
      else split_aux sep (c # acc) cs)"
  by pat_completeness auto
termination
  by (relation "measure (\<lambda>(sep, acc, s). length s)") auto

definition py_split :: "string \<Rightarrow> string \<Rightarrow> string list" where
  "py_split s sep = split_aux sep [] s"

text \<open>\<^verbatim>\<open>sep.join(xs)\<close>.\<close>

fun join :: "string \<Rightarrow> string list \<Rightarrow> string" where
  "join sep [] = []"
| "join sep [x] = x"
| "join sep (x # y # ys) = x @ sep @ join sep (y # ys)"

text \<open>\<^verbatim>\<open>s.endswith(suffix)\<close>.\<close>

definition endswith :: "string \<Rightarrow> string \<Rightarrow> bool" where
  "endswith s suf = (length suf \<le> length s \<and> drop (length s - length suf) s = suf)"

definition ascii_uppercase :: string where
  "ascii_uppercase = ''ABCDEFGHIJKLMNOPQRSTUVWXYZ''"

definition ascii_lowercase :: string where
  "ascii_lowercase = ''abcdefghijklmnopqrstuvwxyz''"

definition digits :: string where
  "digits = ''0123456789''"

definition is_upper :: "char \<Rightarrow> bool" where
  "is_upper c = (c \<in> set ascii_uppercase)"

definition is_lower :: "char \<Rightarrow> bool" where
  "is_lower c = (c \<in> set ascii_lowercase)"

definition is_lower_or_digit :: "char \<Rightarrow> bool" where
  "is_lower_or_digit c = (c \<in> set ascii_lowercase \<or> c \<in> set digits)"

text \<open>
  \<^verbatim>\<open>s.lower()\<close>. Below code point 256 the characters that \<^verbatim>\<open>str.lower()\<close> changes
  are the letters \<^verbatim>\<open>A\<close> to \<^verbatim>\<open>Z\<close> and the uppercase letters of the Latin-1 supplement
  (code points 0xC0 to 0xDE without the multiplication sign 0xD7); each goes to the
  character 32 code points later, whatever stands next to it.
\<close>

definition latin1_uppercase :: string where
  "latin1_uppercase =
     [CHR 0xC0, CHR 0xC1, CHR 0xC2, CHR 0xC3, CHR 0xC4, CHR 0xC5, CHR 0xC6, CHR 0xC7,
      CHR 0xC8, CHR 0xC9, CHR 0xCA, CHR 0xCB, CHR 0xCC, CHR 0xCD, CHR 0xCE, CHR 0xCF,
      CHR 0xD0, CHR 0xD1, CHR 0xD2, CHR 0xD3, CHR 0xD4, CHR 0xD5, CHR 0xD6, CHR 0xD8,
      CHR 0xD9, CHR 0xDA, CHR 0xDB, CHR 0xDC, CHR 0xDD, CHR 0xDE]"

definition latin1_lowercase :: string where
  "latin1_lowercase =
     [CHR 0xE0, CHR 0xE1, CHR 0xE2, CHR 0xE3, CHR 0xE4, CHR 0xE5, CHR 0xE6, CHR 0xE7,
      CHR 0xE8, CHR 0xE9, CHR 0xEA, CHR 0xEB, CHR 0xEC, CHR 0xED, CHR 0xEE, CHR 0xEF,
      CHR 0xF0, CHR 0xF1, CHR 0xF2, CHR 0xF3, CHR 0xF4, CHR 0xF5, CHR 0xF6, CHR 0xF8,
      CHR 0xF9, CHR 0xFA, CHR 0xFB, CHR 0xFC, CHR 0xFD, CHR 0xFE]"

definition lower_char :: "char \<Rightarrow> char" where
  "lower_char c =
     (case map_of (zip (ascii_uppercase @ latin1_uppercase)
                       (ascii_lowercase @ latin1_lowercase)) c of
        None \<Rightarrow> c | Some l \<Rightarrow> l)"

definition lower :: "string \<Rightarrow> string" where
  "lower s = map lower_char s"

subsection \<open>Exceptions\<close>

text \<open>The four exception classes of the module, with their constructor arguments.
  \<^typ>\<open>'x\<close> is the exception of the module system that a load failure wraps.\<close>

datatype 'x error =
    InvalidTypeStringException string
  | InvalidModuleException string string 'x
  | InvalidActionInterfaceException string
  | InvalidClassException string string string 'x

subsection \<open>\<^verbatim>\<open>_splittype\<close>\<close>

text \<open>The list comprehension \<^verbatim>\<open>[x for x in typestring.split("/") if x]\<close>, which
  \<^verbatim>\<open>_splittype\<close>, \<^verbatim>\<open>_get_msg_class\<close> and \<^verbatim>\<open>_get_srv_class\<close> all start with.\<close>

definition splits_of :: "string \<Rightarrow> string list" where
  "splits_of typestring = filter (\<lambda>x. x \<noteq> []) (py_split typestring ''/'')"

definition splittype :: "string \<Rightarrow> 'x error + (string \<times> string)" where
  "splittype typestring =
     (let splits = splits_of typestring in
      if length splits = 3 then Inr (splits ! 0, splits ! 2)
      else if length splits = 2 then Inr (splits ! 0, splits ! 1)
      else if length splits = 4 \<and> splits ! 1 = ''action'' then Inr (splits ! 0, splits ! 3)
      else Inl (InvalidTypeStringException typestring))"

subsection \<open>\<^verbatim>\<open>_get_hidden_action_subname\<close>\<close>

text \<open>The loop over the two suffixes returns at the first one that matches;
  \<^verbatim>\<open>classname[0 : -len(s)]\<close> keeps all but the last \<^verbatim>\<open>len(s)\<close> characters.\<close>

fun remove_suffixes_loop :: "string list \<Rightarrow> string \<Rightarrow> 'x error + string" where
  "remove_suffixes_loop [] classname = Inl (InvalidActionInterfaceException classname)"
| "remove_suffixes_loop (s # ss) classname =
     (if endswith classname s then Inr (take (length classname - length s) classname)
      else remove_suffixes_loop ss classname)"

definition remove_autogenerated_suffixes :: "string \<Rightarrow> 'x error + string" where
  "remove_autogenerated_suffixes classname =
     remove_suffixes_loop [''_SendGoal'', ''_GetResult''] classname"

text \<open>
  \<^verbatim>\<open>re.sub("((?<=[a-z0-9])[A-Z]|(?!^)[A-Z](?=[a-z]))", r"_\1", camel)\<close>.
  Every match is one character of \<^verbatim>\<open>[A-Z]\<close>; the look-behind and the look-ahead read
  the original string and consume nothing. The scan goes from the left and carries the
  previous character (\<open>None\<close> at the start of the string, where \<^verbatim>\<open>(?!^)\<close> fails and
  the look-behind has nothing to read). A match is replaced by an underscore and itself.
\<close>

fun re_sub_scan :: "char option \<Rightarrow> string \<Rightarrow> string" where
  "re_sub_scan prev [] = []"
| "re_sub_scan prev (c # cs) =
     (if ((case prev of None \<Rightarrow> False | Some p \<Rightarrow> is_lower_or_digit p) \<and> is_upper c)
         \<or> (prev \<noteq> None \<and> is_upper c \<and> (case cs of [] \<Rightarrow> False | n # _ \<Rightarrow> is_lower n))
      then CHR ''_'' # c # re_sub_scan (Some c) cs
      else c # re_sub_scan (Some c) cs)"

definition camel_to_snake_case :: "string \<Rightarrow> string" where
  "camel_to_snake_case camel = lower (re_sub_scan None camel)"

definition get_hidden_action_subname :: "string \<Rightarrow> string \<Rightarrow> 'x error + string" where
  "get_hidden_action_subname subname classname =
     (if length (py_split subname ''._'') = 2 then Inr subname
      else case remove_autogenerated_suffixes classname of
             Inl e \<Rightarrow> Inl e
           | Inr base \<Rightarrow> Inr (subname @ (''._'' @ camel_to_snake_case base)))"

subsection \<open>State, module system, caches\<close>

text \<open>A Python value that a lookup returns: \<^verbatim>\<open>None\<close> or a class object.\<close>

datatype 'h pyval = PyNone | Cls 'h

datatype call = ImportModule string | GetAttr string string

text \<open>The module globals \<^verbatim>\<open>_loaded_msgs\<close> and \<^verbatim>\<open>_loaded_srvs\<close>, and the calls made
  to the module system so far (the dotted path imported; the path and the attribute read).\<close>

record 'h state =
  loaded_msgs :: "string \<rightharpoonup> 'h pyval"
  loaded_srvs :: "string \<rightharpoonup> 'h pyval"
  calls :: "call list"

text \<open>The module system: \<^verbatim>\<open>importlib.import_module(path)\<close> and
  \<^verbatim>\<open>getattr(module, name)\<close>, each returning a value or raising.\<close>

record ('m, 'h, 'x) provider =
  import_module :: "string \<Rightarrow> 'x + 'm"
  getattr :: "'m \<Rightarrow> string \<Rightarrow> 'x + 'h pyval"

text \<open>Which of the two dictionaries a call of \<^verbatim>\<open>_get_class\<close> was handed.\<close>

datatype cache_ref = Msgs | Srvs

fun cache_of :: "cache_ref \<Rightarrow> 'h state \<Rightarrow> (string \<rightharpoonup> 'h pyval)" where
  "cache_of Msgs st = loaded_msgs st"
| "cache_of Srvs st = loaded_srvs st"

fun add_to_cache :: "cache_ref \<Rightarrow> string \<Rightarrow> 'h pyval \<Rightarrow> 'h state \<Rightarrow> 'h state" where
  "add_to_cache Msgs key val st = st\<lparr>loaded_msgs := (loaded_msgs st)(key \<mapsto> val)\<rparr>"
| "add_to_cache Srvs key val st = st\<lparr>loaded_srvs := (loaded_srvs st)(key \<mapsto> val)\<rparr>"

text \<open>\<^verbatim>\<open>_get_from_cache\<close>: \<^verbatim>\<open>None\<close> when the key is absent, the stored value
  otherwise (which is \<^verbatim>\<open>None\<close> too if \<^verbatim>\<open>None\<close> was stored).\<close>

definition get_from_cache :: "cache_ref \<Rightarrow> 'h state \<Rightarrow> string \<Rightarrow> 'h pyval" where
  "get_from_cache cache st key =
     (case cache_of cache st key of None \<Rightarrow> PyNone | Some ret \<Rightarrow> ret)"

subsection \<open>\<^verbatim>\<open>_load_class\<close> and \<^verbatim>\<open>_get_class\<close>\<close>

definition load_class ::
  "('m, 'h, 'x) provider \<Rightarrow> string \<Rightarrow> string \<Rightarrow> string \<Rightarrow> 'h state
     \<Rightarrow> ('x error + 'h pyval) \<times> 'h state" where
  "load_class P modname subname classname st =
     (let path = modname @ ''.'' @ subname;
          st1 = st\<lparr>calls := calls st @ [ImportModule path]\<rparr>
      in case import_module P path of
           Inl exc \<Rightarrow> (Inl (InvalidModuleException modname subname exc), st1)
         | Inr pypkg \<Rightarrow>
             (let st2 = st1\<lparr>calls := calls st1 @ [GetAttr path classname]\<rparr>
              in case getattr P pypkg classname of
                   Inl exc \<Rightarrow> (Inl (InvalidClassException modname subname classname exc), st2)
                 | Inr cls \<Rightarrow> (Inr cls, st2)))"

definition get_class ::
  "('m, 'h, 'x) provider \<Rightarrow> string \<Rightarrow> string \<Rightarrow> cache_ref \<Rightarrow> 'h state
     \<Rightarrow> ('x error + 'h pyval) \<times> 'h state" where
  "get_class P typestring subname cache st =
     (let cls = get_from_cache cache st typestring in
      if cls \<noteq> PyNone then (Inr cls, st)
      else case splittype typestring of
             Inl e \<Rightarrow> (Inl e, st)
           | Inr (modname, classname) \<Rightarrow>
               (let norm_typestring = modname @ ''/'' @ classname;
                    cls = get_from_cache cache st norm_typestring
                in if cls \<noteq> PyNone then (Inr cls, st)
                   else case load_class P modname subname classname st of
                          (Inl e, st1) \<Rightarrow> (Inl e, st1)
                        | (Inr cls, st1) \<Rightarrow>
                            (Inr cls,
                             add_to_cache cache norm_typestring cls
                               (add_to_cache cache typestring cls st1))))"

subsection \<open>\<^verbatim>\<open>_get_msg_class\<close> and \<^verbatim>\<open>_get_srv_class\<close>\<close>

text \<open>The clause \<^verbatim>\<open>except (InvalidModuleException, InvalidClassException)\<close>.\<close>

fun caught :: "'x error \<Rightarrow> bool" where
  "caught (InvalidModuleException m s e) = True"
| "caught (InvalidClassException m s c e) = True"
| "caught (InvalidTypeStringException t) = False"
| "caught (InvalidActionInterfaceException c) = False"

text \<open>The subname that the \<^verbatim>\<open>try\<close> block of \<^verbatim>\<open>_get_msg_class\<close> computes;
  \<^verbatim>\<open>splits[1:-1]\<close> is the list without its first and its last element.\<close>

definition msg_subname :: "string \<Rightarrow> string" where
  "msg_subname typestring =
     (let splits = splits_of typestring in
      if length splits > 2 then join ''.'' (butlast (tl splits)) else ''msg'')"

text \<open>The subname that the \<^verbatim>\<open>try\<close> block of \<^verbatim>\<open>_get_srv_class\<close> computes, or the
  exception that \<^verbatim>\<open>_get_hidden_action_subname\<close> raises there.\<close>

definition srv_subname :: "string \<Rightarrow> 'x error + string" where
  "srv_subname typestring =
     (let splits = splits_of typestring in
      if length splits > 2 then
        (let subname = join ''.'' (butlast (tl splits)) in
         if splits ! 1 = ''action'' then get_hidden_action_subname subname (last splits)
         else Inr subname)
      else Inr ''srv'')"

text \<open>The \<^verbatim>\<open>try\<close> blocks.\<close>

definition msg_try ::
  "('m, 'h, 'x) provider \<Rightarrow> string \<Rightarrow> 'h state \<Rightarrow> ('x error + 'h pyval) \<times> 'h state" where
  "msg_try P typestring st = get_class P typestring (msg_subname typestring) Msgs st"

definition srv_try ::
  "('m, 'h, 'x) provider \<Rightarrow> string \<Rightarrow> 'h state \<Rightarrow> ('x error + 'h pyval) \<times> 'h state" where
  "srv_try P typestring st =
     (case srv_subname typestring of
        Inl e \<Rightarrow> (Inl e, st)
      | Inr subname \<Rightarrow> get_class P typestring subname Srvs st)"

definition get_msg_class ::
  "('m, 'h, 'x) provider \<Rightarrow> string \<Rightarrow> 'h state \<Rightarrow> ('x error + 'h pyval) \<times> 'h state" where
  "get_msg_class P typestring st =
     (case msg_try P typestring st of
        (Inl e, st1) \<Rightarrow>
          if caught e then get_class P typestring ''msg'' Msgs st1 else (Inl e, st1)
      | (Inr cls, st1) \<Rightarrow> (Inr cls, st1))"

definition get_srv_class ::
  "('m, 'h, 'x) provider \<Rightarrow> string \<Rightarrow> 'h state \<Rightarrow> ('x error + 'h pyval) \<times> 'h state" where
  "get_srv_class P typestring st =
     (case srv_try P typestring st of
        (Inl e, st1) \<Rightarrow>
          if caught e then get_class P typestring ''srv'' Srvs st1 else (Inl e, st1)
      | (Inr cls, st1) \<Rightarrow> (Inr cls, st1))"

definition get_message_class ::
  "('m, 'h, 'x) provider \<Rightarrow> string \<Rightarrow> 'h state \<Rightarrow> ('x error + 'h pyval) \<times> 'h state" where
  "get_message_class P typestring st = get_msg_class P typestring st"

definition get_service_class ::
  "('m, 'h, 'x) provider \<Rightarrow> string \<Rightarrow> 'h state \<Rightarrow> ('x error + 'h pyval) \<times> 'h state" where
  "get_service_class P typestring st = get_srv_class P typestring st"

text \<open>The entry point for each dictionary.\<close>

fun resolve ::
  "cache_ref \<Rightarrow> ('m, 'h, 'x) provider \<Rightarrow> string \<Rightarrow> 'h state
     \<Rightarrow> ('x error + 'h pyval) \<times> 'h state" where
  "resolve Msgs P typestring st = get_message_class P typestring st"
| "resolve Srvs P typestring st = get_service_class P typestring st"

text \<open>The state when the module has just been imported, and the states the program
  can be in afterwards: the dictionaries are written by \<^verbatim>\<open>_get_class\<close> only.\<close>

definition init_state :: "'h state" where
  "init_state = \<lparr>loaded_msgs = Map.empty, loaded_srvs = Map.empty, calls = []\<rparr>"

inductive reachable :: "('m, 'h, 'x) provider \<Rightarrow> 'h state \<Rightarrow> bool"
  for P :: "('m, 'h, 'x) provider" where
  reach_init: "reachable P init_state"
| reach_step: "reachable P st \<Longrightarrow> reachable P (snd (resolve cache P typestring st))"

subsection \<open>The camel-case conversion as the specification words it\<close>




subsection \<open>Notions used in the proofs\<close>

text \<open>A segment: a non-empty string without a slash.\<close>
definition seg :: "string \<Rightarrow> bool" where
  "seg s = (s \<noteq> [] \<and> CHR ''/'' \<notin> set s)"

text \<open>The pair that \<^verbatim>\<open>_splittype\<close> returns, \<open>None\<close> where it raises.\<close>
definition parsed :: "string \<Rightarrow> (string \<times> string) option" where
  "parsed typestring =
     (let splits = splits_of typestring in
      if length splits = 3 then Some (splits ! 0, splits ! 2)
      else if length splits = 2 then Some (splits ! 0, splits ! 1)
      else if length splits = 4 \<and> splits ! 1 = ''action'' then Some (splits ! 0, splits ! 3)
      else None)"

text \<open>What \<^verbatim>\<open>_load_class\<close> returns or raises, and the calls it makes; neither depends
  on the state.\<close>
definition load_result ::
  "('m, 'h, 'x) provider \<Rightarrow> string \<Rightarrow> string \<Rightarrow> string \<Rightarrow> 'x error + 'h pyval" where
  "load_result P modname subname classname =
     (case import_module P (modname @ ''.'' @ subname) of
        Inl exc \<Rightarrow> Inl (InvalidModuleException modname subname exc)
      | Inr pypkg \<Rightarrow>
          (case getattr P pypkg classname of
             Inl exc \<Rightarrow> Inl (InvalidClassException modname subname classname exc)
           | Inr cls \<Rightarrow> Inr cls))"

definition load_calls ::
  "('m, 'h, 'x) provider \<Rightarrow> string \<Rightarrow> string \<Rightarrow> string \<Rightarrow> call list" where
  "load_calls P modname subname classname =
     (case import_module P (modname @ ''.'' @ subname) of
        Inl exc \<Rightarrow> [ImportModule (modname @ ''.'' @ subname)]
      | Inr pypkg \<Rightarrow> [ImportModule (modname @ ''.'' @ subname),
                       GetAttr (modname @ ''.'' @ subname) classname])"

text \<open>The shape shared by \<^verbatim>\<open>_get_msg_class\<close> and \<^verbatim>\<open>_get_srv_class\<close>: a first call of
  \<^verbatim>\<open>_get_class\<close>, and a second one with the default subname when the first raises an
  exception that the \<^verbatim>\<open>except\<close> clause catches.\<close>
definition with_fallback ::
  "('m, 'h, 'x) provider \<Rightarrow> string \<Rightarrow> string \<Rightarrow> string \<Rightarrow> cache_ref \<Rightarrow> 'h state
     \<Rightarrow> ('x error + 'h pyval) \<times> 'h state" where
  "with_fallback P typestring subname dflt cache st =
     (case get_class P typestring subname cache st of
        (Inl e, st1) \<Rightarrow>
          if caught e then get_class P typestring dflt cache st1 else (Inl e, st1)
      | (Inr cls, st1) \<Rightarrow> (Inr cls, st1))"

text \<open>The state after further calls to the module system, and after the two writes that
  end a successful load.\<close>
definition called :: "'h state \<Rightarrow> call list \<Rightarrow> 'h state" where
  "called st cs = st\<lparr>calls := calls st @ cs\<rparr>"

definition stored :: "cache_ref \<Rightarrow> string \<Rightarrow> string \<Rightarrow> 'h pyval \<Rightarrow> 'h state \<Rightarrow> 'h state" where
  "stored cache typestring norm cls st =
     add_to_cache cache norm cls (add_to_cache cache typestring cls st)"

text \<open>The invariant of a dictionary: a key that yields a class has a shape that
  \<^verbatim>\<open>_splittype\<close> accepts, and its normalised key yields the same class.\<close>
definition cache_inv :: "cache_ref \<Rightarrow> 'h state \<Rightarrow> bool" where
  "cache_inv k st =
     (\<forall>key. get_from_cache k st key \<noteq> PyNone \<longrightarrow>
        (\<exists>m c. parsed key = Some (m, c) \<and>
               get_from_cache k st (m @ ''/'' @ c) = get_from_cache k st key))"

text \<open>The shapes of identifier that the input grammar allows: two segments, three
  segments, or four segments of which the second is \<^verbatim>\<open>"action"\<close>.\<close>
definition accepted_shape :: "string \<Rightarrow> bool" where
  "accepted_shape typestring =
     (let n = length (splits_of typestring) in
      n = 2 \<or> n = 3 \<or> (n = 4 \<and> splits_of typestring ! 1 = ''action''))"

text \<open>The number of module imports among the calls made.\<close>
fun import_count :: "call list \<Rightarrow> nat" where
  "import_count [] = 0"
| "import_count (ImportModule p # cs) = Suc (import_count cs)"
| "import_count (GetAttr p a # cs) = import_count cs"

text \<open>Two module systems to run the program on: one where every module exists and every
  attribute is a class named by its path, and one where a single module exists.\<close>
definition any_provider :: "(string, string \<times> string, unit) provider" where
  "any_provider =
     \<lparr>import_module = (\<lambda>path. Inr path), getattr = (\<lambda>m name. Inr (Cls (m, name)))\<rparr>"

definition one_module_provider :: "string \<Rightarrow> (string, string \<times> string, unit) provider" where
  "one_module_provider p =
     \<lparr>import_module = (\<lambda>path. if path = p then Inr path else Inl ()),
      getattr = (\<lambda>m name. Inr (Cls (m, name)))\<rparr>"

text \<open>A module system whose modules have no docstring: the attribute \<^verbatim>\<open>__doc__\<close> of
  every module is \<^verbatim>\<open>None\<close>, every other attribute is a class.\<close>
definition none_provider :: "(string, string \<times> string, unit) provider" where
  "none_provider =
     \<lparr>import_module = (\<lambda>path. Inr path),
      getattr = (\<lambda>m name. if name = ''__doc__'' then Inr PyNone else Inr (Cls (m, name)))\<rparr>"

text \<open>The subpath inferred from the identifier, as the specification words it: the
  segments strictly between the first and the last, joined by dots, when there are more
  than two segments; the default otherwise.\<close>
definition inferred_subname :: "string \<Rightarrow> string \<Rightarrow> string" where
  "inferred_subname dflt typestring =
     (if 2 < length (splits_of typestring)
      then join ''.'' (butlast (tl (splits_of typestring))) else dflt)"

section \<open>The action subname\<close>

text \<open>What \<^verbatim>\<open>lower_char\<close> does to each character: the 56 uppercase letters go to their
  lowercase letters, every other character stays.\<close>
lemma lower_char_uppercase:
  "map lower_char (ascii_uppercase @ latin1_uppercase) = ascii_lowercase @ latin1_lowercase"
  by (simp add: lower_char_def ascii_uppercase_def ascii_lowercase_def latin1_uppercase_def
      latin1_lowercase_def)

lemma lower_char_other:
  assumes "c \<notin> set (ascii_uppercase @ latin1_uppercase)"
  shows "lower_char c = c"
proof -
  have "length (ascii_uppercase @ latin1_uppercase)
          = length (ascii_lowercase @ latin1_lowercase)"
    by (simp add: ascii_uppercase_def ascii_lowercase_def latin1_uppercase_def
        latin1_lowercase_def)
  from map_of_zip_is_None [OF this, of c] assms
  have "map_of (zip (ascii_uppercase @ latin1_uppercase)
                    (ascii_lowercase @ latin1_lowercase)) c = None"
    by blast
  then show ?thesis by (simp add: lower_char_def)
qed



lemma remove_autogenerated_suffixes_cases:
  "(remove_autogenerated_suffixes classname :: 'x error + string) =
     (if endswith classname ''_SendGoal''
      then Inr (take (length classname - length ''_SendGoal'') classname)
      else if endswith classname ''_GetResult''
      then Inr (take (length classname - length ''_GetResult'') classname)
      else Inl (InvalidActionInterfaceException classname))"
  by (simp add: remove_autogenerated_suffixes_def)



lemma split_aux_slash:
  "split_aux ''/'' acc (c # cs) =
     (if c = CHR ''/'' then rev acc # split_aux ''/'' [] cs else split_aux ''/'' (c # acc) cs)"
  by simp

lemma split_aux_no_slash:
  "CHR ''/'' \<notin> set a \<Longrightarrow> split_aux ''/'' acc a = [rev acc @ a]"
  by (induction a arbitrary: acc) auto

lemma split_aux_segment:
  "CHR ''/'' \<notin> set a \<Longrightarrow>
     split_aux ''/'' acc (a @ CHR ''/'' # rest) = (rev acc @ a) # split_aux ''/'' [] rest"
  by (induction a arbitrary: acc) auto

lemma split_aux_elems:
  "x \<in> set (split_aux ''/'' acc s) \<Longrightarrow> CHR ''/'' \<notin> set acc \<Longrightarrow> CHR ''/'' \<notin> set x"
proof (induction s arbitrary: acc)
  case Nil
  then show ?case by simp
next
  case (Cons c cs)
  show ?case
  proof (cases "c = CHR ''/''")
    case True
    with Cons.prems have "x = rev acc \<or> x \<in> set (split_aux ''/'' [] cs)" by simp
    then show ?thesis using Cons.IH [of "[]"] Cons.prems(2) by auto
  next
    case False
    with Cons.prems have "x \<in> set (split_aux ''/'' (c # acc) cs)" by simp
    then show ?thesis using Cons.IH [of "c # acc"] Cons.prems(2) False by auto
  qed
qed

lemma splits_of_seg: "x \<in> set (splits_of ts) \<Longrightarrow> seg x"
  using split_aux_elems [of x "[]" ts] by (auto simp: splits_of_def py_split_def seg_def)

lemma py_split_two:
  "seg m \<Longrightarrow> seg c \<Longrightarrow> py_split (m @ ''/'' @ c) ''/'' = [m, c]"
  using split_aux_segment [of m "[]" c] split_aux_no_slash [of c "[]"]
  by (simp add: py_split_def seg_def)

lemma splits_of_two: "seg m \<Longrightarrow> seg c \<Longrightarrow> splits_of (m @ ''/'' @ c) = [m, c]"
  using py_split_two [of m c] by (simp add: splits_of_def seg_def)

lemma splits_of_three:
  "seg m \<Longrightarrow> seg s \<Longrightarrow> seg c \<Longrightarrow> splits_of (m @ ''/'' @ s @ ''/'' @ c) = [m, s, c]"
  using split_aux_segment [of m "[]" "s @ ''/'' @ c"] split_aux_segment [of s "[]" c]
    split_aux_no_slash [of c "[]"]
  by (simp add: splits_of_def py_split_def seg_def)

lemma splittype_parsed:
  "(splittype ts :: 'x error + (string \<times> string)) =
     (case parsed ts of None \<Rightarrow> Inl (InvalidTypeStringException ts) | Some p \<Rightarrow> Inr p)"
  by (simp add: splittype_def parsed_def Let_def)

lemma parsed_seg: "parsed ts = Some (m, c) \<Longrightarrow> seg m \<and> seg c"
proof -
  assume a: "parsed ts = Some (m, c)"
  have n: "\<And>i. i < length (splits_of ts) \<Longrightarrow> seg (splits_of ts ! i)"
    using splits_of_seg nth_mem by blast
  from a show ?thesis
    by (auto simp: parsed_def Let_def n split: if_splits)
qed

lemma parsed_norm:
  assumes "parsed ts = Some (m, c)"
  shows "parsed (m @ ''/'' @ c) = Some (m, c)"
proof -
  have "splits_of (m @ ''/'' @ c) = [m, c]"
    using parsed_seg [OF assms] splits_of_two by blast
  then show ?thesis unfolding parsed_def by simp
qed

lemma parsed_cong: "splits_of a = splits_of b \<Longrightarrow> parsed a = parsed b"
  by (simp add: parsed_def)

lemma load_class_eq:
  "load_class P m s c st = (load_result P m s c, called st (load_calls P m s c))"
  by (simp add: load_class_def load_result_def load_calls_def called_def Let_def
      split: sum.splits)

lemma load_result_caught: "load_result P m s c = Inl e \<Longrightarrow> caught e"
  by (auto simp: load_result_def split: sum.splits)

lemma get_from_cache_called [simp]:
  "get_from_cache k (called st cs) key = get_from_cache k st key"
  by (cases k) (simp_all add: get_from_cache_def called_def)

lemma called_called [simp]: "called (called st a) b = called st (a @ b)"
  by (simp add: called_def)

lemma get_from_cache_add:
  "get_from_cache k (add_to_cache k' key v st) key' =
     (if k = k' \<and> key' = key then v else get_from_cache k st key')"
  by (cases k; cases k') (simp_all add: get_from_cache_def)

lemma get_from_cache_stored:
  "get_from_cache k (stored k' ts norm v st) key =
     (if k = k' \<and> (key = norm \<or> key = ts) then v else get_from_cache k st key)"
  by (auto simp: stored_def get_from_cache_add)

lemma calls_stored [simp]: "calls (stored k ts norm v st) = calls st"
  by (cases k) (simp_all add: stored_def)

lemma calls_called [simp]: "calls (called st cs) = calls st @ cs"
  by (simp add: called_def)

lemma get_class_eq:
  "get_class P ts sub k st =
     (if get_from_cache k st ts \<noteq> PyNone then (Inr (get_from_cache k st ts), st)
      else case parsed ts of
             None \<Rightarrow> (Inl (InvalidTypeStringException ts), st)
           | Some (m, c) \<Rightarrow>
               if get_from_cache k st (m @ ''/'' @ c) \<noteq> PyNone
               then (Inr (get_from_cache k st (m @ ''/'' @ c)), st)
               else case load_result P m sub c of
                      Inl e \<Rightarrow> (Inl e, called st (load_calls P m sub c))
                    | Inr cls \<Rightarrow>
                        (Inr cls, stored k ts (m @ ''/'' @ c) cls
                                    (called st (load_calls P m sub c))))"
  by (simp add: get_class_def splittype_parsed load_class_eq stored_def Let_def
      split: option.splits sum.splits)

lemma with_fallback_eq:
  "with_fallback P ts sub dflt k st =
     (if get_from_cache k st ts \<noteq> PyNone then (Inr (get_from_cache k st ts), st)
      else case parsed ts of
             None \<Rightarrow> (Inl (InvalidTypeStringException ts), st)
           | Some (m, c) \<Rightarrow>
               if get_from_cache k st (m @ ''/'' @ c) \<noteq> PyNone
               then (Inr (get_from_cache k st (m @ ''/'' @ c)), st)
               else case load_result P m sub c of
                      Inr cls \<Rightarrow>
                        (Inr cls, stored k ts (m @ ''/'' @ c) cls
                                    (called st (load_calls P m sub c)))
                    | Inl e \<Rightarrow>
                        (case load_result P m dflt c of
                           Inr cls \<Rightarrow>
                             (Inr cls, stored k ts (m @ ''/'' @ c) cls
                                (called st (load_calls P m sub c @ load_calls P m dflt c)))
                         | Inl e' \<Rightarrow>
                             (Inl e', called st (load_calls P m sub c @ load_calls P m dflt c))))"
  unfolding with_fallback_def get_class_eq
  by (auto split: option.splits sum.splits dest: load_result_caught)

lemma get_msg_class_eq:
  "get_msg_class P ts st = with_fallback P ts (msg_subname ts) ''msg'' Msgs st"
  by (simp add: get_msg_class_def msg_try_def with_fallback_def)

lemma get_hidden_action_subname_error:
  "get_hidden_action_subname sub c = Inl e \<Longrightarrow> e = InvalidActionInterfaceException c"
  by (auto simp: get_hidden_action_subname_def remove_autogenerated_suffixes_cases
      split: if_splits)

lemma srv_subname_error:
  "srv_subname ts = Inl e \<Longrightarrow> e = InvalidActionInterfaceException (last (splits_of ts))"
  by (auto simp: srv_subname_def Let_def split: if_splits
      dest: get_hidden_action_subname_error)

lemma srv_subname_not_caught: "srv_subname ts = Inl e \<Longrightarrow> \<not> caught e"
  by (auto dest: srv_subname_error)

lemma get_srv_class_eq:
  "get_srv_class P ts st =
     (case srv_subname ts of
        Inl e \<Rightarrow> (Inl e, st)
      | Inr sub \<Rightarrow> with_fallback P ts sub ''srv'' Srvs st)"
  by (auto simp: get_srv_class_def srv_try_def with_fallback_def split: sum.splits
      dest: srv_subname_not_caught)

lemma cache_inv_called [simp]: "cache_inv k (called st cs) = cache_inv k st"
  by (simp add: cache_inv_def)

lemma cache_inv_init: "cache_inv k init_state"
  by (cases k) (simp_all add: cache_inv_def get_from_cache_def init_state_def)

lemma cache_inv_stored_other:
  "k \<noteq> k' \<Longrightarrow> cache_inv k (stored k' ts norm v st) = cache_inv k st"
  by (simp add: cache_inv_def get_from_cache_stored)

lemma cache_inv_stored:
  assumes inv: "cache_inv k st"
    and p: "parsed ts = Some (m, c)"
    and miss: "get_from_cache k st ts = PyNone" "get_from_cache k st (m @ ''/'' @ c) = PyNone"
  shows "cache_inv k (stored k ts (m @ ''/'' @ c) v st)"
  unfolding cache_inv_def
proof (intro allI impI)
  fix key
  let ?st = "stored k ts (m @ ''/'' @ c) v st"
  assume present: "get_from_cache k ?st key \<noteq> PyNone"
  show "\<exists>m' c'. parsed key = Some (m', c') \<and>
               get_from_cache k ?st (m' @ ''/'' @ c') = get_from_cache k ?st key"
  proof (cases "key = m @ ''/'' @ c \<or> key = ts")
    case True
    then have "parsed key = Some (m, c)" using p parsed_norm [OF p] by auto
    moreover have "get_from_cache k ?st (m @ ''/'' @ c) = get_from_cache k ?st key"
      using True by (auto simp: get_from_cache_stored)
    ultimately show ?thesis by blast
  next
    case False
    then have old: "get_from_cache k ?st key = get_from_cache k st key"
      by (simp add: get_from_cache_stored)
    with present inv obtain m' c' where
      q: "parsed key = Some (m', c')"
      "get_from_cache k st (m' @ ''/'' @ c') = get_from_cache k st key"
      unfolding cache_inv_def by metis
    from q(2) old present miss have "m' @ ''/'' @ c' \<noteq> m @ ''/'' @ c" "m' @ ''/'' @ c' \<noteq> ts"
      by auto
    then have "get_from_cache k ?st (m' @ ''/'' @ c') = get_from_cache k st (m' @ ''/'' @ c')"
      by (simp add: get_from_cache_stored)
    with q old show ?thesis by auto
  qed
qed

lemma cache_inv_with_fallback:
  assumes "cache_inv k st"
  shows "cache_inv k (snd (with_fallback P ts sub dflt k' st))"
proof (cases "k = k'")
  case False
  then show ?thesis using assms unfolding with_fallback_eq
    by (simp add: cache_inv_stored_other split: option.splits sum.splits)
next
  case True
  have s: "\<And>m c v cs. parsed ts = Some (m, c) \<Longrightarrow> get_from_cache k st ts = PyNone \<Longrightarrow>
             get_from_cache k st (m @ ''/'' @ c) = PyNone \<Longrightarrow>
             cache_inv k (stored k ts (m @ ''/'' @ c) v (called st cs))"
    using assms by (intro cache_inv_stored) simp_all
  show ?thesis using assms s unfolding with_fallback_eq True [symmetric]
    by (simp split: option.splits sum.splits)
qed

lemma cache_inv_resolve:
  "cache_inv k st \<Longrightarrow> cache_inv k (snd (resolve k' P ts st))"
  by (cases k')
    (auto simp: get_message_class_def get_service_class_def get_msg_class_eq get_srv_class_eq
      cache_inv_with_fallback split: sum.splits)

lemma reachable_inv: "reachable P st \<Longrightarrow> cache_inv k st"
  by (induction rule: reachable.induct) (simp_all add: cache_inv_init cache_inv_resolve)

lemma resolve_eq:
  "resolve k P ts st =
     (case k of
        Msgs \<Rightarrow> with_fallback P ts (msg_subname ts) ''msg'' Msgs st
      | Srvs \<Rightarrow> (case srv_subname ts of
                   Inl e \<Rightarrow> (Inl e, st)
                 | Inr sub \<Rightarrow> with_fallback P ts sub ''srv'' Srvs st))"
  by (cases k)
    (simp_all add: get_message_class_def get_service_class_def get_msg_class_eq
      get_srv_class_eq)

lemma parsed_accepted: "accepted_shape ts = (parsed ts \<noteq> None)"
  by (auto simp: accepted_shape_def parsed_def Let_def)

lemma with_fallback_hit:
  "get_from_cache k st ts = Cls h \<Longrightarrow> with_fallback P ts sub dflt k st = (Inr (Cls h), st)"
  by (simp add: with_fallback_eq)

lemma with_fallback_norm_hit:
  "get_from_cache k st ts = PyNone \<Longrightarrow> parsed ts = Some (m, c) \<Longrightarrow>
   get_from_cache k st (m @ ''/'' @ c) = Cls h \<Longrightarrow>
   with_fallback P ts sub dflt k st = (Inr (Cls h), st)"
  by (simp add: with_fallback_eq)

lemma with_fallback_malformed:
  "get_from_cache k st ts = PyNone \<Longrightarrow> parsed ts = None \<Longrightarrow>
   with_fallback P ts sub dflt k st = (Inl (InvalidTypeStringException ts), st)"
  by (simp add: with_fallback_eq)

text \<open>How a call can succeed: a hit on the identifier, a hit on the normalised key, or
  a load followed by the two writes.\<close>
lemma with_fallback_success:
  assumes "with_fallback P ts sub dflt k st = (Inr v, st')"
  shows "(get_from_cache k st ts = v \<and> v \<noteq> PyNone \<and> st' = st)
       \<or> (\<exists>m c. get_from_cache k st ts = PyNone \<and> parsed ts = Some (m, c) \<and>
                 get_from_cache k st (m @ ''/'' @ c) = v \<and> v \<noteq> PyNone \<and> st' = st)
       \<or> (\<exists>m c cs. get_from_cache k st ts = PyNone \<and> parsed ts = Some (m, c) \<and>
                 get_from_cache k st (m @ ''/'' @ c) = PyNone \<and>
                 st' = stored k ts (m @ ''/'' @ c) v (called st cs))"
proof (cases "get_from_cache k st ts = PyNone")
  case False
  with assms show ?thesis by (auto simp: with_fallback_eq)
next
  case miss: True
  show ?thesis
  proof (cases "parsed ts")
    case None
    with assms miss show ?thesis by (auto simp: with_fallback_eq)
  next
    case (Some p)
    obtain m c where p: "p = (m, c)" by (cases p)
    show ?thesis
    proof (cases "get_from_cache k st (m @ ''/'' @ c) = PyNone")
      case False
      with assms miss Some p show ?thesis by (auto simp: with_fallback_eq)
    next
      case nmiss: True
      show ?thesis
      proof (cases "load_result P m sub c")
        case (Inr w)
        with assms miss Some p nmiss have "v = w"
          "st' = stored k ts (m @ ''/'' @ c) v (called st (load_calls P m sub c))"
          by (auto simp: with_fallback_eq)
        with miss Some p nmiss show ?thesis by blast
      next
        case (Inl e)
        show ?thesis
        proof (cases "load_result P m dflt c")
          case (Inr w)
          with assms miss Some p nmiss Inl have "v = w"
            "st' = stored k ts (m @ ''/'' @ c) v
                     (called st (load_calls P m sub c @ load_calls P m dflt c))"
            by (auto simp: with_fallback_eq)
          with miss Some p nmiss show ?thesis by blast
        next
          case e': (Inl e')
          with assms miss Some p nmiss Inl show ?thesis by (auto simp: with_fallback_eq)
        qed
      qed
    qed
  qed
qed

lemma with_fallback_failure:
  assumes "with_fallback P ts sub dflt k st = (Inl e, st')"
  shows "st' = st\<lparr>calls := calls st'\<rparr>"
  using assms unfolding with_fallback_eq
  by (auto simp: called_def split: if_splits option.splits sum.splits)

lemma resolve_success:
  assumes "resolve k P ts st = (Inr v, st')"
  shows "\<exists>sub dflt. with_fallback P ts sub dflt k st = (Inr v, st')"
  using assms unfolding resolve_eq
  by (cases k) (auto split: sum.splits)

lemma resolve_failure:
  assumes "resolve k P ts st = (Inl e, st')"
  shows "st' = st\<lparr>calls := calls st'\<rparr>"
  using assms unfolding resolve_eq
  by (cases k) (auto split: sum.splits dest: with_fallback_failure)

lemma with_fallback_again:
  assumes "with_fallback P ts sub dflt k st = (Inr (Cls h), st1)"
  shows "with_fallback P ts sub' dflt' k st1 = (Inr (Cls h), st1)"
  using with_fallback_success [OF assms]
proof (elim disjE exE conjE)
  assume "get_from_cache k st ts = Cls h" "st1 = st"
  then show ?thesis by (simp add: with_fallback_hit)
next
  fix m c
  assume "get_from_cache k st ts = PyNone" "parsed ts = Some (m, c)"
    "get_from_cache k st (m @ ''/'' @ c) = Cls h" "st1 = st"
  then show ?thesis by (simp add: with_fallback_norm_hit)
next
  fix m c cs
  assume "st1 = stored k ts (m @ ''/'' @ c) (Cls h) (called st cs)"
  then have "get_from_cache k st1 ts = Cls h" by (simp add: get_from_cache_stored)
  then show ?thesis by (rule with_fallback_hit)
qed

lemma resolve_again:
  assumes "resolve k P ts st = (Inr (Cls h), st1)"
  shows "resolve k P ts st1 = (Inr (Cls h), st1)"
proof (cases k)
  case Msgs
  with assms show ?thesis unfolding resolve_eq by (simp add: with_fallback_again)
next
  case Srvs
  with assms show ?thesis unfolding resolve_eq
    by (auto split: sum.splits simp: with_fallback_again)
qed

text \<open>After a call that returned a class, the class is in the dictionary, under the
  identifier or under its normalised key.\<close>
lemma with_fallback_success_present:
  assumes "with_fallback P ts sub dflt k st = (Inr (Cls h), st1)"
  shows "get_from_cache k st1 ts = Cls h
       \<or> (\<exists>m c. get_from_cache k st1 ts = PyNone \<and> parsed ts = Some (m, c)
                 \<and> get_from_cache k st1 (m @ ''/'' @ c) = Cls h)"
  using with_fallback_success [OF assms]
proof (elim disjE exE conjE)
  assume "get_from_cache k st ts = Cls h" "st1 = st"
  then show ?thesis by simp
next
  fix m c
  assume "get_from_cache k st ts = PyNone" "parsed ts = Some (m, c)"
    "get_from_cache k st (m @ ''/'' @ c) = Cls h" "st1 = st"
  then show ?thesis by simp
next
  fix m c cs
  assume "st1 = stored k ts (m @ ''/'' @ c) (Cls h) (called st cs)"
  then have "get_from_cache k st1 ts = Cls h" by (simp add: get_from_cache_stored)
  then show ?thesis by simp
qed

text \<open>With the class in the dictionary the module system plays no part: the next call
  gives the same result for every module system, whatever it can or cannot load.\<close>
lemma with_fallback_again_any:
  assumes "with_fallback P ts sub dflt k st = (Inr (Cls h), st1)"
  shows "with_fallback Q ts sub' dflt' k st1 = (Inr (Cls h), st1)"
  using with_fallback_success_present [OF assms]
  by (auto simp: with_fallback_hit with_fallback_norm_hit)

text \<open>Whether the subname of a service is computed or an exception is raised does not
  depend on the type of the wrapped exceptions.\<close>
lemma srv_subname_Inr_any:
  "(srv_subname ts :: 'a error + string) = Inr s \<Longrightarrow> (srv_subname ts :: 'b error + string) = Inr s"
  by (auto simp: srv_subname_def get_hidden_action_subname_def
      remove_autogenerated_suffixes_cases Let_def split: if_splits)

lemma resolve_again_any:
  fixes P :: "('m, 'h, 'x) provider" and Q :: "('n, 'h, 'y) provider"
  assumes "resolve k P ts st = (Inr (Cls h), st1)"
  shows "resolve k Q ts st1 = (Inr (Cls h), st1)"
proof (cases k)
  case Msgs
  with assms show ?thesis unfolding resolve_eq by (simp add: with_fallback_again_any)
next
  case Srvs
  show ?thesis
  proof (cases "srv_subname ts :: 'x error + string")
    case (Inl e)
    with assms Srvs show ?thesis unfolding resolve_eq by simp
  next
    case (Inr sub)
    then have "(srv_subname ts :: 'y error + string) = Inr sub" by (rule srv_subname_Inr_any)
    with assms Srvs Inr show ?thesis unfolding resolve_eq
      by (simp add: with_fallback_again_any)
  qed
qed

lemma resolve_success_present:
  fixes P :: "('m, 'h, 'x) provider"
  assumes "resolve k P ts st = (Inr (Cls h), st1)"
  shows "get_from_cache k st1 ts = Cls h
       \<or> (\<exists>m c. (splittype ts :: 'x error + (string \<times> string)) = Inr (m, c)
                 \<and> get_from_cache k st1 (m @ ''/'' @ c) = Cls h)"
proof -
  from resolve_success [OF assms] obtain sub dflt
    where "with_fallback P ts sub dflt k st = (Inr (Cls h), st1)" by blast
  from with_fallback_success_present [OF this] show ?thesis
    by (auto simp: splittype_parsed)
qed

text \<open>
  Claim C7, as amended. When a resolution succeeds with a type handle, that is, with a
  class and not with \<^verbatim>\<open>None\<close>, the class is afterwards in the dictionary of that kind,
  under the identifier or under its normalised key, and a second resolution of the same
  identifier through the same entry point returns that class and leaves the state as it
  is: the record of calls to the module system does not grow. The second result does not
  depend on the module system at all: it is the same for every module system, also for
  one that can load nothing.
\<close>

theorem second_resolution_cached:
  fixes P :: "('m, 'h, 'x) provider" and Q :: "('n, 'h, 'y) provider"
  assumes "resolve k P ts st = (Inr (Cls h), st1)"
  shows "(get_from_cache k st1 ts = Cls h
          \<or> (\<exists>m c. (splittype ts :: 'x error + (string \<times> string)) = Inr (m, c)
                    \<and> get_from_cache k st1 (m @ ''/'' @ c) = Cls h))
         \<and> resolve k Q ts st1 = (Inr (Cls h), st1)
         \<and> resolve k P ts st1 = (Inr (Cls h), st1)
         \<and> calls (snd (resolve k P ts st1)) = calls st1"
  using resolve_success_present [OF assms] resolve_again_any [OF assms, of Q]
    resolve_again_any [OF assms, of P]
  by simp

lemma any_provider_msg_pkg_Cls:
  "fst (resolve Msgs any_provider ''pkg/Cls'' init_state) = Inr (Cls (''pkg.msg'', ''Cls''))"
  by (simp add: get_message_class_def get_msg_class_def msg_try_def get_class_def
      get_from_cache_def init_state_def splittype_def splits_of_def py_split_def
      msg_subname_def load_class_def any_provider_def Let_def)

theorem second_resolution_cached_witness:
  "fst (resolve Msgs any_provider ''pkg/Cls'' init_state) = Inr (Cls (''pkg.msg'', ''Cls''))
   \<and> get_from_cache Msgs (snd (resolve Msgs any_provider ''pkg/Cls'' init_state)) ''pkg/Cls''
       = Cls (''pkg.msg'', ''Cls'')
   \<and> fst (resolve Msgs any_provider ''pkg/Cls''
             (snd (resolve Msgs any_provider ''pkg/Cls'' init_state)))
       = Inr (Cls (''pkg.msg'', ''Cls''))
   \<and> fst (resolve Msgs (one_module_provider ''nowhere'') ''pkg/Cls''
             (snd (resolve Msgs any_provider ''pkg/Cls'' init_state)))
       = Inr (Cls (''pkg.msg'', ''Cls''))
   \<and> fst (resolve Msgs (one_module_provider ''nowhere'') ''pkg/Cls'' init_state)
       = Inl (InvalidModuleException ''pkg'' ''msg'' ())
   \<and> calls (snd (resolve Msgs any_provider ''pkg/Cls''
                   (snd (resolve Msgs any_provider ''pkg/Cls'' init_state))))
       = calls (snd (resolve Msgs any_provider ''pkg/Cls'' init_state))"
proof -
  let ?st1 = "snd (resolve Msgs any_provider ''pkg/Cls'' init_state)"
  have e: "resolve Msgs any_provider ''pkg/Cls'' init_state
             = (Inr (Cls (''pkg.msg'', ''Cls'')), ?st1)"
    using any_provider_msg_pkg_Cls by (simp add: prod_eq_iff)
  have c: "get_from_cache Msgs ?st1 ''pkg/Cls'' = Cls (''pkg.msg'', ''Cls'')"
    by (simp add: get_message_class_def get_msg_class_def msg_try_def get_class_def
        get_from_cache_def init_state_def splittype_def splits_of_def py_split_def
        msg_subname_def load_class_def any_provider_def Let_def)
  have f: "fst (resolve Msgs (one_module_provider ''nowhere'') ''pkg/Cls''
                  (init_state :: (string \<times> string) state))
             = Inl (InvalidModuleException ''pkg'' ''msg'' ())"
    by (simp add: get_message_class_def get_msg_class_def msg_try_def get_class_def
        get_from_cache_def init_state_def splittype_def splits_of_def py_split_def
        msg_subname_def load_class_def one_module_provider_def Let_def)
  from second_resolution_cached [OF e, of "one_module_provider ''nowhere''"]
    any_provider_msg_pkg_Cls c f
  show ?thesis by (simp del: resolve.simps)
qed

text \<open>The claim as it was stated fails when the attribute that is looked up is
  \<^verbatim>\<open>None\<close>: the first resolution of \<^verbatim>\<open>"pkg/__doc__"\<close> returns \<^verbatim>\<open>None\<close> without an
  exception and writes it to the dictionary, \<^verbatim>\<open>_get_from_cache\<close> reads the entry as a
  miss, and the second resolution imports the module and reads the attribute again.\<close>

theorem second_resolution_none_counterexample:
  "fst (get_message_class none_provider ''pkg/__doc__'' init_state) = Inr PyNone
   \<and> loaded_msgs (snd (get_message_class none_provider ''pkg/__doc__'' init_state))
         ''pkg/__doc__'' = Some PyNone
   \<and> calls (snd (get_message_class none_provider ''pkg/__doc__'' init_state))
       = [ImportModule ''pkg.msg'', GetAttr ''pkg.msg'' ''__doc__'']
   \<and> fst (get_message_class none_provider ''pkg/__doc__''
             (snd (get_message_class none_provider ''pkg/__doc__'' init_state))) = Inr PyNone
   \<and> calls (snd (get_message_class none_provider ''pkg/__doc__''
                   (snd (get_message_class none_provider ''pkg/__doc__'' init_state))))
       = [ImportModule ''pkg.msg'', GetAttr ''pkg.msg'' ''__doc__'',
          ImportModule ''pkg.msg'', GetAttr ''pkg.msg'' ''__doc__'']"
  by (simp add: get_message_class_def get_msg_class_def msg_try_def get_class_def
      get_from_cache_def init_state_def splittype_def splits_of_def py_split_def
      msg_subname_def load_class_def none_provider_def Let_def)

lemma not_accepted_parsed: "\<not> accepted_shape ts \<Longrightarrow> parsed ts = None"
  by (cases "parsed ts") (auto simp: parsed_accepted)

lemma reachable_malformed_miss:
  assumes "reachable P st" "\<not> accepted_shape ts"
  shows "get_from_cache k st ts = PyNone"
  using reachable_inv [OF assms(1), of k] assms(2)
  unfolding cache_inv_def parsed_accepted by force

text \<open>
  Claim C4. An identifier whose non-empty segments are not two, not three and not four
  with \<^verbatim>\<open>"action"\<close> second fails with \<^verbatim>\<open>InvalidTypeStringException\<close> once the parse step
  is reached, that is, when the dictionary has no class under the identifier and, for a
  service, the computation of the subname has not raised. In a state the program can
  reach the dictionary never has such an identifier. When a resolution of either kind
  fails, both dictionaries are what they were before the call.
\<close>

theorem malformed_fails_and_failure_keeps_caches:
  fixes P :: "('m, 'h, 'x) provider"
  shows
  "(\<not> accepted_shape ts \<and> get_from_cache Msgs st ts = PyNone \<longrightarrow>
      get_message_class P ts st = (Inl (InvalidTypeStringException ts), st))
   \<and> (\<not> accepted_shape ts \<and> get_from_cache Srvs st ts = PyNone
       \<and> srv_subname ts = (Inr sub :: 'x error + string) \<longrightarrow>
      get_service_class P ts st = (Inl (InvalidTypeStringException ts), st))
   \<and> (\<not> accepted_shape ts \<and> reachable P st \<longrightarrow>
      get_message_class P ts st = (Inl (InvalidTypeStringException ts), st))
   \<and> (fst (resolve k P ts st) = Inl e \<longrightarrow>
      loaded_msgs (snd (resolve k P ts st)) = loaded_msgs st
      \<and> loaded_srvs (snd (resolve k P ts st)) = loaded_srvs st)"
proof (intro conjI impI)
  assume "\<not> accepted_shape ts \<and> get_from_cache Msgs st ts = PyNone"
  then show "get_message_class P ts st = (Inl (InvalidTypeStringException ts), st)"
    by (simp add: get_message_class_def get_msg_class_eq with_fallback_malformed
        not_accepted_parsed)
next
  assume "\<not> accepted_shape ts \<and> get_from_cache Srvs st ts = PyNone
          \<and> srv_subname ts = (Inr sub :: 'x error + string)"
  then show "get_service_class P ts st = (Inl (InvalidTypeStringException ts), st)"
    by (simp add: get_service_class_def get_srv_class_eq with_fallback_malformed
        not_accepted_parsed)
next
  assume a: "\<not> accepted_shape ts \<and> reachable P st"
  then have "get_from_cache Msgs st ts = PyNone" using reachable_malformed_miss by blast
  with a show "get_message_class P ts st = (Inl (InvalidTypeStringException ts), st)"
    by (simp add: get_message_class_def get_msg_class_eq with_fallback_malformed
        not_accepted_parsed)
next
  assume "fst (resolve k P ts st) = Inl e"
  then have r: "resolve k P ts st = (Inl e, snd (resolve k P ts st))"
    by (simp add: prod_eq_iff)
  show "loaded_msgs (snd (resolve k P ts st)) = loaded_msgs st"
    using resolve_failure [OF r] by (metis state.select_convs(1) state.surjective state.update_convs(3))
  show "loaded_srvs (snd (resolve k P ts st)) = loaded_srvs st"
    using resolve_failure [OF r] by (metis state.select_convs(2) state.surjective state.update_convs(3))
qed

theorem malformed_fails_and_failure_keeps_caches_witness:
  "\<not> accepted_shape ''a/b/c/d/e''
   \<and> get_from_cache Msgs (init_state :: (string \<times> string) state) ''a/b/c/d/e'' = PyNone
   \<and> get_from_cache Srvs (init_state :: (string \<times> string) state) ''a/b/c/d/e'' = PyNone
   \<and> srv_subname ''a/b/c/d/e'' = (Inr ''b.c.d'' :: unit error + string)
   \<and> reachable any_provider init_state
   \<and> fst (get_message_class any_provider ''a/b/c/d/e'' init_state)
       = Inl (InvalidTypeStringException ''a/b/c/d/e'')
   \<and> fst (get_service_class any_provider ''a/b/c/d/e'' init_state)
       = Inl (InvalidTypeStringException ''a/b/c/d/e'')
   \<and> loaded_msgs (snd (resolve Msgs any_provider ''a/b/c/d/e'' init_state)) = Map.empty
   \<and> loaded_srvs (snd (resolve Msgs any_provider ''a/b/c/d/e'' init_state)) = Map.empty"
proof -
  have s: "splits_of ''a/b/c/d/e'' = [''a'', ''b'', ''c'', ''d'', ''e'']"
    by (simp add: splits_of_def py_split_def)
  have h1: "\<not> accepted_shape ''a/b/c/d/e''" by (simp add: accepted_shape_def s)
  have h2: "get_from_cache Msgs (init_state :: (string \<times> string) state) ''a/b/c/d/e'' = PyNone"
    "get_from_cache Srvs (init_state :: (string \<times> string) state) ''a/b/c/d/e'' = PyNone"
    by (simp_all add: get_from_cache_def init_state_def)
  have h3: "srv_subname ''a/b/c/d/e'' = (Inr ''b.c.d'' :: unit error + string)"
    by (simp add: srv_subname_def s)
  have h4: "reachable any_provider init_state" by (rule reach_init)
  note t = malformed_fails_and_failure_keeps_caches
      [of "''a/b/c/d/e''" init_state any_provider "''b.c.d''" Msgs
         "InvalidTypeStringException ''a/b/c/d/e''"]
  from t h1 h2 h3 h4 show ?thesis
    by (simp add: init_state_def)
qed

lemma import_count_append [simp]:
  "import_count (a @ b) = import_count a + import_count b"
  by (induction a rule: import_count.induct) simp_all

lemma import_count_load_calls [simp]: "import_count (load_calls P m s c) = 1"
  by (simp add: load_calls_def split: sum.splits)

lemma with_fallback_import_count:
  "import_count (calls (snd (with_fallback P ts sub dflt k st))) \<le> import_count (calls st) + 2"
  unfolding with_fallback_eq
  by (simp split: option.splits sum.splits)

lemma resolve_import_count:
  fixes P :: "('m, 'h, 'x) provider"
  shows "import_count (calls (snd (resolve k P ts st))) \<le> import_count (calls st) + 2"
proof (cases k)
  case Msgs
  then show ?thesis unfolding resolve_eq
    using with_fallback_import_count [of P ts "msg_subname ts" "''msg''" Msgs st] by simp
next
  case Srvs
  show ?thesis
  proof (cases "srv_subname ts :: 'x error + string")
    case (Inl e)
    with Srvs show ?thesis unfolding resolve_eq by simp
  next
    case (Inr sub)
    with Srvs show ?thesis unfolding resolve_eq
      using with_fallback_import_count [of P ts sub "''srv''" Srvs st] by simp
  qed
qed

text \<open>A first call of \<^verbatim>\<open>_get_class\<close> that raises an exception of the two classes that
  are caught has missed the dictionary twice and has left it as it was, so the second call
  loads with the default subname.\<close>
lemma get_class_retry:
  assumes "get_class P ts sub k st = (Inl e, st1)" "caught e"
  shows "\<exists>m c. parsed ts = Some (m, c) \<and>
           fst (get_class P ts dflt k st1) = fst (load_class P m dflt c st1)"
proof -
  from assms have miss: "get_from_cache k st ts = PyNone"
    unfolding get_class_eq by (auto split: if_splits)
  from assms miss obtain m c where p: "parsed ts = Some (m, c)"
    unfolding get_class_eq by (cases "parsed ts") auto
  from assms miss p have nmiss: "get_from_cache k st (m @ ''/'' @ c) = PyNone"
    unfolding get_class_eq by (auto split: if_splits)
  from assms miss p nmiss have st1: "st1 = called st (load_calls P m sub c)"
    unfolding get_class_eq by (auto split: sum.splits)
  have "fst (get_class P ts dflt k st1) = fst (load_class P m dflt c st1)"
    unfolding get_class_eq load_class_eq st1 using miss p nmiss
    by (simp split: sum.splits)
  with p show ?thesis by blast
qed

text \<open>
  Claim C3. In both entry points, when the \<^verbatim>\<open>try\<close> block raises
  \<^verbatim>\<open>InvalidModuleException\<close> or \<^verbatim>\<open>InvalidClassException\<close>, the result of the call is
  the result of one further call of \<^verbatim>\<open>_get_class\<close> with the default subname
  (\<^verbatim>\<open>"msg"\<close>, \<^verbatim>\<open>"srv"\<close>), whether that is a class or an exception, and that call
  loads the parsed package and class under the default subname; the first exception is
  not part of the result. When the \<^verbatim>\<open>try\<close> block raises
  \<^verbatim>\<open>InvalidTypeStringException\<close> or \<^verbatim>\<open>InvalidActionInterfaceException\<close>, that exception
  is the result. One resolution imports at most two modules.
\<close>

theorem fallback_retry:
  fixes P :: "('m, 'h, 'x) provider"
  shows
  "(msg_try P ts st = (Inl e, st1)
      \<and> (e = InvalidModuleException mo su x \<or> e = InvalidClassException mo su cl x) \<longrightarrow>
      get_message_class P ts st = get_class P ts ''msg'' Msgs st1
      \<and> (\<exists>m c. (splittype ts :: 'x error + (string \<times> string)) = Inr (m, c)
              \<and> fst (get_message_class P ts st) = fst (load_class P m ''msg'' c st1)))
   \<and> (srv_try P ts st = (Inl e, st1)
      \<and> (e = InvalidModuleException mo su x \<or> e = InvalidClassException mo su cl x) \<longrightarrow>
      get_service_class P ts st = get_class P ts ''srv'' Srvs st1
      \<and> (\<exists>m c. (splittype ts :: 'x error + (string \<times> string)) = Inr (m, c)
              \<and> fst (get_service_class P ts st) = fst (load_class P m ''srv'' c st1)))
   \<and> (msg_try P ts st = (Inl e, st1)
      \<and> (e = InvalidTypeStringException t \<or> e = InvalidActionInterfaceException t) \<longrightarrow>
      get_message_class P ts st = (Inl e, st1))
   \<and> (srv_try P ts st = (Inl e, st1)
      \<and> (e = InvalidTypeStringException t \<or> e = InvalidActionInterfaceException t) \<longrightarrow>
      get_service_class P ts st = (Inl e, st1))
   \<and> import_count (calls (snd (resolve k P ts st))) \<le> import_count (calls st) + 2"
proof (intro conjI impI)
  assume a: "msg_try P ts st = (Inl e, st1)
      \<and> (e = InvalidModuleException mo su x \<or> e = InvalidClassException mo su cl x)"
  then have c: "caught e" by auto
  with a show r: "get_message_class P ts st = get_class P ts ''msg'' Msgs st1"
    by (simp add: get_message_class_def get_msg_class_def)
  from a have "get_class P ts (msg_subname ts) Msgs st = (Inl e, st1)"
    by (simp add: msg_try_def)
  from get_class_retry [OF this c, of "''msg''"] r
  show "\<exists>m c. (splittype ts :: 'x error + (string \<times> string)) = Inr (m, c)
              \<and> fst (get_message_class P ts st) = fst (load_class P m ''msg'' c st1)"
    by (auto simp: splittype_parsed)
next
  assume a: "srv_try P ts st = (Inl e, st1)
      \<and> (e = InvalidModuleException mo su x \<or> e = InvalidClassException mo su cl x)"
  then have c: "caught e" by auto
  with a show r: "get_service_class P ts st = get_class P ts ''srv'' Srvs st1"
    by (simp add: get_service_class_def get_srv_class_def)
  from a c obtain sub where "get_class P ts sub Srvs st = (Inl e, st1)"
    unfolding srv_try_def by (auto split: sum.splits dest: srv_subname_not_caught)
  from get_class_retry [OF this c, of "''srv''"] r
  show "\<exists>m c. (splittype ts :: 'x error + (string \<times> string)) = Inr (m, c)
              \<and> fst (get_service_class P ts st) = fst (load_class P m ''srv'' c st1)"
    by (auto simp: splittype_parsed)
next
  assume "msg_try P ts st = (Inl e, st1)
      \<and> (e = InvalidTypeStringException t \<or> e = InvalidActionInterfaceException t)"
  then show "get_message_class P ts st = (Inl e, st1)"
    by (auto simp: get_message_class_def get_msg_class_def)
next
  assume "srv_try P ts st = (Inl e, st1)
      \<and> (e = InvalidTypeStringException t \<or> e = InvalidActionInterfaceException t)"
  then show "get_service_class P ts st = (Inl e, st1)"
    by (auto simp: get_service_class_def get_srv_class_def)
next
  show "import_count (calls (snd (resolve k P ts st))) \<le> import_count (calls st) + 2"
    by (rule resolve_import_count)
qed

lemma one_module_srv_try:
  "fst (srv_try (one_module_provider ''pkg.srv'') ''pkg/Sub/Cls'' init_state)
     = Inl (InvalidModuleException ''pkg'' ''Sub'' ())"
  by (simp add: srv_try_def srv_subname_def get_class_def
      get_from_cache_def init_state_def splittype_def splits_of_def py_split_def
      load_class_def one_module_provider_def Let_def)

lemma one_module_srv_retry:
  "fst (get_class (one_module_provider ''pkg.srv'') ''pkg/Sub/Cls'' ''srv'' Srvs
          (snd (srv_try (one_module_provider ''pkg.srv'') ''pkg/Sub/Cls'' init_state)))
     = Inr (Cls (''pkg.srv'', ''Cls''))"
  by (simp add: srv_try_def srv_subname_def get_class_def
      get_from_cache_def init_state_def splittype_def splits_of_def py_split_def
      load_class_def one_module_provider_def Let_def)

lemma one_module_msg_try:
  "fst (msg_try (one_module_provider ''pkg.msg'') ''pkg/Sub/Cls'' init_state)
     = Inl (InvalidModuleException ''pkg'' ''Sub'' ())"
  by (simp add: msg_try_def msg_subname_def get_class_def
      get_from_cache_def init_state_def splittype_def splits_of_def py_split_def
      load_class_def one_module_provider_def Let_def)

lemma one_module_msg_retry:
  "fst (get_class (one_module_provider ''pkg.msg'') ''pkg/Sub/Cls'' ''msg'' Msgs
          (snd (msg_try (one_module_provider ''pkg.msg'') ''pkg/Sub/Cls'' init_state)))
     = Inr (Cls (''pkg.msg'', ''Cls''))"
  by (simp add: msg_try_def msg_subname_def get_class_def
      get_from_cache_def init_state_def splittype_def splits_of_def py_split_def
      load_class_def one_module_provider_def Let_def)

lemma any_provider_msg_try_pkg:
  "msg_try any_provider ''pkg'' init_state = (Inl (InvalidTypeStringException ''pkg''), init_state)"
  by (simp add: msg_try_def msg_subname_def get_class_def
      get_from_cache_def init_state_def splittype_def splits_of_def py_split_def Let_def)

lemma any_provider_srv_try_action:
  "srv_try any_provider ''pkg/action/Foo'' init_state
     = (Inl (InvalidActionInterfaceException ''Foo''), init_state)"
  by (simp add: srv_try_def srv_subname_def splits_of_def py_split_def
      get_hidden_action_subname_def remove_autogenerated_suffixes_def endswith_def)

theorem fallback_retry_witness:
  "fst (srv_try (one_module_provider ''pkg.srv'') ''pkg/Sub/Cls'' init_state)
     = Inl (InvalidModuleException ''pkg'' ''Sub'' ())
   \<and> fst (get_service_class (one_module_provider ''pkg.srv'') ''pkg/Sub/Cls'' init_state)
     = Inr (Cls (''pkg.srv'', ''Cls''))
   \<and> fst (msg_try (one_module_provider ''pkg.msg'') ''pkg/Sub/Cls'' init_state)
     = Inl (InvalidModuleException ''pkg'' ''Sub'' ())
   \<and> fst (get_message_class (one_module_provider ''pkg.msg'') ''pkg/Sub/Cls'' init_state)
     = Inr (Cls (''pkg.msg'', ''Cls''))
   \<and> get_message_class any_provider ''pkg'' init_state
     = (Inl (InvalidTypeStringException ''pkg''), init_state)
   \<and> get_service_class any_provider ''pkg/action/Foo'' init_state
     = (Inl (InvalidActionInterfaceException ''Foo''), init_state)
   \<and> import_count (calls (snd (resolve Srvs (one_module_provider ''pkg.srv'') ''pkg/Sub/Cls''
                                  init_state))) \<le> 2"
proof -
  let ?P = "one_module_provider ''pkg.srv''"
  let ?st1 = "snd (srv_try ?P ''pkg/Sub/Cls'' init_state)"
  let ?Q = "one_module_provider ''pkg.msg''"
  let ?st2 = "snd (msg_try ?Q ''pkg/Sub/Cls'' init_state)"
  have h: "srv_try ?P ''pkg/Sub/Cls'' init_state
             = (Inl (InvalidModuleException ''pkg'' ''Sub'' ()), ?st1)"
    using one_module_srv_try by (simp add: prod_eq_iff)
  have g: "msg_try ?Q ''pkg/Sub/Cls'' init_state
             = (Inl (InvalidModuleException ''pkg'' ''Sub'' ()), ?st2)"
    using one_module_msg_try by (simp add: prod_eq_iff)
  note t = fallback_retry [of ?P "''pkg/Sub/Cls''" init_state
      "InvalidModuleException ''pkg'' ''Sub'' ()" ?st1 "''pkg''" "''Sub''" "()" "''Cls''"
      "''pkg/Sub/Cls''" Srvs]
  note u = fallback_retry [of ?Q "''pkg/Sub/Cls''" init_state
      "InvalidModuleException ''pkg'' ''Sub'' ()" ?st2 "''pkg''" "''Sub''" "()" "''Cls''"
      "''pkg/Sub/Cls''" Msgs]
  note v = fallback_retry [of any_provider "''pkg''" init_state
      "InvalidTypeStringException ''pkg''" init_state "''pkg''" "''Sub''" "()" "''Cls''"
      "''pkg''" Msgs]
  note w = fallback_retry [of any_provider "''pkg/action/Foo''" init_state
      "InvalidActionInterfaceException ''Foo''" init_state "''pkg''" "''Sub''" "()" "''Cls''"
      "''Foo''" Srvs]
  from t h have 1: "get_service_class ?P ''pkg/Sub/Cls'' init_state
                   = get_class ?P ''pkg/Sub/Cls'' ''srv'' Srvs ?st1"
    by blast
  from u g have 2: "get_message_class ?Q ''pkg/Sub/Cls'' init_state
                   = get_class ?Q ''pkg/Sub/Cls'' ''msg'' Msgs ?st2"
    by blast
  from v any_provider_msg_try_pkg have 3: "get_message_class any_provider ''pkg'' init_state
     = (Inl (InvalidTypeStringException ''pkg''), init_state)"
    by blast
  from w any_provider_srv_try_action
  have 4: "get_service_class any_provider ''pkg/action/Foo'' init_state
     = (Inl (InvalidActionInterfaceException ''Foo''), init_state)"
    by blast
  from t have 5: "import_count (calls (snd (resolve Srvs ?P ''pkg/Sub/Cls'' init_state)))
                   \<le> import_count (calls (init_state :: (string \<times> string) state)) + 2"
    by blast
  from 1 2 3 4 5 show ?thesis
    using one_module_srv_try one_module_srv_retry one_module_msg_try one_module_msg_retry
    by (simp add: init_state_def)
qed

lemma get_from_cache_Some:
  "get_from_cache k st key = v \<Longrightarrow> v \<noteq> PyNone \<Longrightarrow> cache_of k st key = Some v"
  by (auto simp: get_from_cache_def split: option.splits)

lemma cache_of_called [simp]: "cache_of k (called st cs) = cache_of k st"
  by (cases k) (simp_all add: called_def)

lemma cache_of_stored:
  "cache_of k (stored k ts norm v st) key =
     (if key = norm \<or> key = ts then Some v else cache_of k st key)"
  by (cases k) (simp_all add: stored_def)

lemma with_fallback_success_cache:
  assumes inv: "cache_inv k st"
    and ok: "with_fallback P ts sub dflt k st = (Inr v, st')"
  shows "\<exists>m c. parsed ts = Some (m, c) \<and> cache_of k st' (m @ ''/'' @ c) = Some v \<and>
           (cache_of k st' ts = Some v \<or>
            (st' = st \<and> get_from_cache k st ts = PyNone
             \<and> get_from_cache k st (m @ ''/'' @ c) = v))"
  using with_fallback_success [OF ok]
proof (elim disjE exE conjE)
  assume h: "get_from_cache k st ts = v" "v \<noteq> PyNone" "st' = st"
  with inv obtain m c where p: "parsed ts = Some (m, c)"
    "get_from_cache k st (m @ ''/'' @ c) = v"
    unfolding cache_inv_def by metis
  from h p show ?thesis by (auto intro: get_from_cache_Some)
next
  fix m c
  assume "get_from_cache k st ts = PyNone" "parsed ts = Some (m, c)"
    "get_from_cache k st (m @ ''/'' @ c) = v" "v \<noteq> PyNone" "st' = st"
  then show ?thesis by (auto intro: get_from_cache_Some)
next
  fix m c cs
  assume "parsed ts = Some (m, c)" "st' = stored k ts (m @ ''/'' @ c) v (called st cs)"
  then show ?thesis by (simp add: cache_of_stored)
qed






lemma srv_subname_plain:
  "length (splits_of ts) < 3 \<or> splits_of ts ! 1 \<noteq> ''action'' \<Longrightarrow>
   srv_subname ts = Inr (inferred_subname ''srv'' ts)"
  by (auto simp: srv_subname_def inferred_subname_def Let_def)

lemma srv_subname_action:
  "3 \<le> length (splits_of ts) \<and> splits_of ts ! 1 = ''action'' \<Longrightarrow>
   srv_subname ts =
     get_hidden_action_subname (inferred_subname ''srv'' ts) (last (splits_of ts))"
  by (auto simp: srv_subname_def inferred_subname_def Let_def)

text \<open>
  Claim C2, as amended. In service resolution the hidden-action transform is applied to
  the identifiers with three or more non-empty segments whose second segment is
  \<^verbatim>\<open>"action"\<close>, and to no others: when the second segment is not \<^verbatim>\<open>"action"\<close>, or there
  are fewer than three segments, the first call of \<^verbatim>\<open>_get_class\<close> gets the inferred
  subpath as it is; otherwise it gets what \<^verbatim>\<open>_get_hidden_action_subname\<close> makes of the
  inferred subpath and the last segment, or the exception of the transform is raised.
\<close>

theorem hidden_action_transform_applies:
  fixes P :: "('m, 'h, 'x) provider"
  shows
  "((length (splits_of ts) < 3 \<or> splits_of ts ! 1 \<noteq> ''action'') \<longrightarrow>
      (srv_subname ts :: 'x error + string) = Inr (inferred_subname ''srv'' ts)
      \<and> srv_try P ts st = get_class P ts (inferred_subname ''srv'' ts) Srvs st)
   \<and> ((3 \<le> length (splits_of ts) \<and> splits_of ts ! 1 = ''action'') \<longrightarrow>
      (srv_subname ts :: 'x error + string)
        = get_hidden_action_subname (inferred_subname ''srv'' ts) (last (splits_of ts))
      \<and> srv_try P ts st =
          (case get_hidden_action_subname (inferred_subname ''srv'' ts) (last (splits_of ts)) of
             Inl e \<Rightarrow> (Inl e, st)
           | Inr subname \<Rightarrow> get_class P ts subname Srvs st))"
proof (intro conjI impI)
  assume a: "length (splits_of ts) < 3 \<or> splits_of ts ! 1 \<noteq> ''action''"
  show "(srv_subname ts :: 'x error + string) = Inr (inferred_subname ''srv'' ts)"
    using a by (rule srv_subname_plain)
  show "srv_try P ts st = get_class P ts (inferred_subname ''srv'' ts) Srvs st"
    unfolding srv_try_def srv_subname_plain [OF a] by simp
next
  assume a: "3 \<le> length (splits_of ts) \<and> splits_of ts ! 1 = ''action''"
  show "(srv_subname ts :: 'x error + string)
        = get_hidden_action_subname (inferred_subname ''srv'' ts) (last (splits_of ts))"
    using a by (rule srv_subname_action)
  show "srv_try P ts st =
          (case get_hidden_action_subname (inferred_subname ''srv'' ts) (last (splits_of ts)) of
             Inl e \<Rightarrow> (Inl e, st)
           | Inr subname \<Rightarrow> get_class P ts subname Srvs st)"
    unfolding srv_try_def srv_subname_action [OF a] by simp
qed

lemma splits_pkg_action_Foo:
  "splits_of ''pkg/action/Foo_SendGoal'' = [''pkg'', ''action'', ''Foo_SendGoal'']"
  by (simp add: splits_of_def py_split_def)

lemma splits_pkg_Sub_Cls: "splits_of ''pkg/Sub/Cls'' = [''pkg'', ''Sub'', ''Cls'']"
  by (simp add: splits_of_def py_split_def)

lemma hidden_action_Foo:
  "(get_hidden_action_subname ''action'' ''Foo_SendGoal'' :: 'x error + string)
     = Inr ''action._foo''"
  by (simp add: get_hidden_action_subname_def py_split_def remove_autogenerated_suffixes_def
      endswith_def camel_to_snake_case_def lower_def lower_char_def latin1_uppercase_def latin1_lowercase_def is_upper_def is_lower_def
      is_lower_or_digit_def ascii_uppercase_def ascii_lowercase_def digits_def)

theorem hidden_action_transform_applies_witness:
  "(srv_subname ''pkg/Sub/Cls'' :: unit error + string) = Inr ''Sub''
   \<and> srv_try any_provider ''pkg/Sub/Cls'' init_state
       = get_class any_provider ''pkg/Sub/Cls'' ''Sub'' Srvs init_state
   \<and> (srv_subname ''pkg/action/Foo_SendGoal'' :: unit error + string) = Inr ''action._foo''
   \<and> srv_try any_provider ''pkg/action/Foo_SendGoal'' init_state
       = get_class any_provider ''pkg/action/Foo_SendGoal'' ''action._foo'' Srvs init_state"
proof -
  have i1: "inferred_subname ''srv'' ''pkg/Sub/Cls'' = ''Sub''"
    by (simp add: inferred_subname_def splits_pkg_Sub_Cls)
  have i2: "inferred_subname ''srv'' ''pkg/action/Foo_SendGoal'' = ''action''"
    by (simp add: inferred_subname_def splits_pkg_action_Foo)
  have h1: "length (splits_of ''pkg/Sub/Cls'') < 3 \<or> splits_of ''pkg/Sub/Cls'' ! 1 \<noteq> ''action''"
    by (simp add: splits_pkg_Sub_Cls)
  have h2: "3 \<le> length (splits_of ''pkg/action/Foo_SendGoal'')
            \<and> splits_of ''pkg/action/Foo_SendGoal'' ! 1 = ''action''"
    by (simp add: splits_pkg_action_Foo)
  have l: "last (splits_of ''pkg/action/Foo_SendGoal'') = ''Foo_SendGoal''"
    by (simp add: splits_pkg_action_Foo)
  from hidden_action_transform_applies [of "''pkg/Sub/Cls''" any_provider init_state] h1
  have a: "(srv_subname ''pkg/Sub/Cls'' :: unit error + string) = Inr ''Sub''"
    "srv_try any_provider ''pkg/Sub/Cls'' init_state
       = get_class any_provider ''pkg/Sub/Cls'' ''Sub'' Srvs init_state"
    unfolding i1 by blast+
  from hidden_action_transform_applies [of "''pkg/action/Foo_SendGoal''" any_provider init_state] h2
  have b: "(srv_subname ''pkg/action/Foo_SendGoal'' :: unit error + string) = Inr ''action._foo''"
    "srv_try any_provider ''pkg/action/Foo_SendGoal'' init_state
       = get_class any_provider ''pkg/action/Foo_SendGoal'' ''action._foo'' Srvs init_state"
    unfolding i2 l hidden_action_Foo by simp_all
  from a b show ?thesis by blast
qed

text \<open>The claim as it was stated fails: \<^verbatim>\<open>"pkg/action/Foo_SendGoal"\<close> has three
  segments, its inferred subpath is \<^verbatim>\<open>"action"\<close>, and service resolution imports
  \<^verbatim>\<open>pkg.action._foo\<close>.\<close>

theorem three_segment_action_counterexample:
  "length (splits_of ''pkg/action/Foo_SendGoal'') < 4
   \<and> inferred_subname ''srv'' ''pkg/action/Foo_SendGoal'' = ''action''
   \<and> (srv_subname ''pkg/action/Foo_SendGoal'' :: unit error + string) = Inr ''action._foo''
   \<and> calls (snd (get_service_class any_provider ''pkg/action/Foo_SendGoal'' init_state))
       = [ImportModule ''pkg.action._foo'', GetAttr ''pkg.action._foo'' ''Foo_SendGoal'']"
proof -
  have s: "(srv_subname ''pkg/action/Foo_SendGoal'' :: unit error + string) = Inr ''action._foo''"
    by (simp add: srv_subname_def splits_pkg_action_Foo hidden_action_Foo)
  have "calls (snd (get_service_class any_provider ''pkg/action/Foo_SendGoal'' init_state))
       = [ImportModule ''pkg.action._foo'', GetAttr ''pkg.action._foo'' ''Foo_SendGoal'']"
    by (simp add: get_service_class_def get_srv_class_def srv_try_def s get_class_def
        get_from_cache_def init_state_def splittype_def splits_pkg_action_Foo
        load_class_def any_provider_def Let_def)
  with s show ?thesis by (simp add: inferred_subname_def splits_pkg_action_Foo)
qed

lemma cache_inv_norm:
  "cache_inv k st \<Longrightarrow> parsed ts = Some (m, c) \<Longrightarrow> get_from_cache k st ts \<noteq> PyNone \<Longrightarrow>
   get_from_cache k st (m @ ''/'' @ c) = get_from_cache k st ts"
  unfolding cache_inv_def by fastforce

lemma cache_inv_parsed:
  "cache_inv k st \<Longrightarrow> parsed ts = None \<Longrightarrow> get_from_cache k st ts = PyNone"
  unfolding cache_inv_def by fastforce

text \<open>In a state that satisfies the invariant, the outcome of a call depends on the
  identifier only through the pair it is parsed to.\<close>
lemma with_fallback_norm_present:
  assumes "cache_inv k st" "parsed ts = Some (m, c)"
    "get_from_cache k st (m @ ''/'' @ c) = Cls h"
  shows "with_fallback P ts sub dflt k st = (Inr (Cls h), st)"
proof (cases "get_from_cache k st ts = PyNone")
  case True
  with assms show ?thesis by (simp add: with_fallback_norm_hit)
next
  case False
  with cache_inv_norm [OF assms(1,2)] assms(3) have "get_from_cache k st ts = Cls h" by simp
  then show ?thesis by (rule with_fallback_hit)
qed

lemma with_fallback_norm_absent:
  assumes "cache_inv k st" "parsed ts = Some (m, c)"
    "get_from_cache k st (m @ ''/'' @ c) = PyNone"
  shows "with_fallback P ts sub dflt k st =
     (case load_result P m sub c of
        Inr cls \<Rightarrow> (Inr cls, stored k ts (m @ ''/'' @ c) cls (called st (load_calls P m sub c)))
      | Inl e \<Rightarrow>
          (case load_result P m dflt c of
             Inr cls \<Rightarrow> (Inr cls, stored k ts (m @ ''/'' @ c) cls
                            (called st (load_calls P m sub c @ load_calls P m dflt c)))
           | Inl e' \<Rightarrow> (Inl e', called st (load_calls P m sub c @ load_calls P m dflt c))))"
proof -
  have "get_from_cache k st ts = PyNone"
    using cache_inv_norm [OF assms(1,2)] assms(3) by force
  with assms(2,3) show ?thesis by (simp add: with_fallback_eq)
qed

lemma with_fallback_same_pair:
  assumes "cache_inv k st" "parsed a = Some (m, c)" "parsed b = Some (m, c)"
  shows "fst (with_fallback P a sub dflt k st) = fst (with_fallback P b sub dflt k st)
       \<and> calls (snd (with_fallback P a sub dflt k st))
           = calls (snd (with_fallback P b sub dflt k st))"
proof (cases "get_from_cache k st (m @ ''/'' @ c)")
  case PyNone
  show ?thesis
    unfolding with_fallback_norm_absent [OF assms(1,2) PyNone]
      with_fallback_norm_absent [OF assms(1,3) PyNone]
    by (simp split: sum.splits)
next
  case (Cls h)
  show ?thesis
    unfolding with_fallback_norm_present [OF assms(1,2) Cls]
      with_fallback_norm_present [OF assms(1,3) Cls]
    by simp
qed

lemma msg_subname_two: "seg pkg \<Longrightarrow> seg cls \<Longrightarrow> msg_subname (pkg @ ''/'' @ cls) = ''msg''"
  using splits_of_two [of pkg cls] by (simp add: msg_subname_def)

lemma seg_msg: "seg ''msg''"
  by (simp add: seg_def)

lemma splits_of_pkg_msg_cls:
  "seg pkg \<Longrightarrow> seg cls \<Longrightarrow> splits_of (pkg @ ''/msg/'' @ cls) = [pkg, ''msg'', cls]"
  using splits_of_three [of pkg "''msg''" cls] seg_msg by simp

lemma msg_subname_pkg_msg_cls:
  "seg pkg \<Longrightarrow> seg cls \<Longrightarrow> msg_subname (pkg @ ''/msg/'' @ cls) = ''msg''"
  using splits_of_pkg_msg_cls [of pkg cls] by (simp add: msg_subname_def)

lemma parsed_two: "seg pkg \<Longrightarrow> seg cls \<Longrightarrow> parsed (pkg @ ''/'' @ cls) = Some (pkg, cls)"
  using splits_of_two [of pkg cls] by (simp add: parsed_def)

lemma parsed_pkg_msg_cls:
  "seg pkg \<Longrightarrow> seg cls \<Longrightarrow> parsed (pkg @ ''/msg/'' @ cls) = Some (pkg, cls)"
  using splits_of_pkg_msg_cls [of pkg cls] by (simp add: parsed_def)

lemma resolve_success_norm:
  assumes "cache_inv k st" "resolve k P ts st = (Inr v, st')" "parsed ts = Some (m, c)"
  shows "cache_of k st' (m @ ''/'' @ c) = Some v"
proof -
  from resolve_success [OF assms(2)] obtain sub dflt
    where "with_fallback P ts sub dflt k st = (Inr v, st')" by blast
  from with_fallback_success_cache [OF assms(1) this] assms(3) show ?thesis by auto
qed

text \<open>
  Claim C6. For a package name and a class name (non-empty, without a slash), in every
  state the program can reach, resolving \<^verbatim>\<open>"pkg/Cls"\<close> as a message gives the result that
  resolving \<^verbatim>\<open>"pkg/msg/Cls"\<close> gives; when it is a success, each of the two resolutions
  leaves the returned value in the message dictionary under the normalised key
  \<^verbatim>\<open>"pkg/Cls"\<close>; and resolving the second after the first returns the same class.
\<close>

theorem two_segment_same_as_msg_subpath:
  assumes "reachable P st" "seg pkg" "seg cls"
  shows
  "fst (get_message_class P (pkg @ ''/'' @ cls) st)
     = fst (get_message_class P (pkg @ ''/msg/'' @ cls) st)
   \<and> (\<forall>v. fst (get_message_class P (pkg @ ''/'' @ cls) st) = Inr v \<longrightarrow>
        loaded_msgs (snd (get_message_class P (pkg @ ''/'' @ cls) st)) (pkg @ ''/'' @ cls)
          = Some v
        \<and> loaded_msgs (snd (get_message_class P (pkg @ ''/msg/'' @ cls) st)) (pkg @ ''/'' @ cls)
          = Some v)
   \<and> (\<forall>h. fst (get_message_class P (pkg @ ''/'' @ cls) st) = Inr (Cls h) \<longrightarrow>
        fst (get_message_class P (pkg @ ''/msg/'' @ cls)
               (snd (get_message_class P (pkg @ ''/'' @ cls) st))) = Inr (Cls h))"
proof -
  let ?A = "pkg @ ''/'' @ cls" and ?B = "pkg @ ''/msg/'' @ cls"
  note pA = parsed_two [OF assms(2,3)] and pB = parsed_pkg_msg_cls [OF assms(2,3)]
  note sA = msg_subname_two [OF assms(2,3)] and sB = msg_subname_pkg_msg_cls [OF assms(2,3)]
  have same: "fst (resolve Msgs P ?A s) = fst (resolve Msgs P ?B s)" if "reachable P s" for s
    using with_fallback_same_pair [OF reachable_inv [OF that, of Msgs] pA pB, of P "''msg''" "''msg''"]
    unfolding resolve_eq sA sB by simp
  have 1: "fst (get_message_class P ?A st) = fst (get_message_class P ?B st)"
    using same [OF assms(1)] by simp
  have 2: "loaded_msgs (snd (get_message_class P ?A st)) ?A = Some v
        \<and> loaded_msgs (snd (get_message_class P ?B st)) ?A = Some v"
    if v: "fst (get_message_class P ?A st) = Inr v" for v
  proof -
    have a: "resolve Msgs P ?A st = (Inr v, snd (resolve Msgs P ?A st))"
      using v by (simp add: prod_eq_iff)
    have b: "resolve Msgs P ?B st = (Inr v, snd (resolve Msgs P ?B st))"
      using v 1 by (simp add: prod_eq_iff)
    from resolve_success_norm [OF reachable_inv [OF assms(1)] a pA]
      resolve_success_norm [OF reachable_inv [OF assms(1)] b pB]
    show ?thesis by simp
  qed
  have 3: "fst (get_message_class P ?B (snd (get_message_class P ?A st))) = Inr (Cls h)"
    if h: "fst (get_message_class P ?A st) = Inr (Cls h)" for h
  proof -
    let ?st1 = "snd (resolve Msgs P ?A st)"
    have a: "resolve Msgs P ?A st = (Inr (Cls h), ?st1)"
      using h by (simp add: prod_eq_iff)
    have r: "reachable P ?st1" using assms(1) by (rule reach_step)
    from resolve_again [OF a] same [OF r] show ?thesis by simp
  qed
  from 1 2 3 show ?thesis by blast
qed

theorem two_segment_same_as_msg_subpath_witness:
  "reachable any_provider init_state \<and> seg ''pkg'' \<and> seg ''Cls''
   \<and> fst (get_message_class any_provider ''pkg/Cls'' init_state)
       = Inr (Cls (''pkg.msg'', ''Cls''))
   \<and> fst (get_message_class any_provider ''pkg/msg/Cls'' init_state)
       = Inr (Cls (''pkg.msg'', ''Cls''))
   \<and> loaded_msgs (snd (get_message_class any_provider ''pkg/msg/Cls'' init_state)) ''pkg/Cls''
       = Some (Cls (''pkg.msg'', ''Cls''))"
proof -
  have r: "reachable any_provider init_state" by (rule reach_init)
  have s: "seg ''pkg''" "seg ''Cls''" by (simp_all add: seg_def)
  have e: "fst (get_message_class any_provider ''pkg/Cls'' init_state)
             = Inr (Cls (''pkg.msg'', ''Cls''))"
    using any_provider_msg_pkg_Cls by simp
  from two_segment_same_as_msg_subpath [OF r s] e r s show ?thesis by simp
qed

lemma split_aux_append_slash:
  "split_aux ''/'' acc (a @ CHR ''/'' # b) = split_aux ''/'' acc a @ split_aux ''/'' [] b"
  by (induction a arbitrary: acc) simp_all

lemma splits_of_append_slash: "splits_of (a @ ''/'' @ b) = splits_of a @ splits_of b"
  using split_aux_append_slash [of "[]" a b] by (simp add: splits_of_def py_split_def)

lemma splits_of_empty: "splits_of [] = []"
  by (simp add: splits_of_def py_split_def)

lemma splits_of_leading_slash: "splits_of (''/'' @ a) = splits_of a"
  using splits_of_append_slash [of "[]" a] by (simp add: splits_of_empty)

lemma splits_of_trailing_slash: "splits_of (a @ ''/'') = splits_of a"
  using splits_of_append_slash [of a "[]"] by (simp add: splits_of_empty)

lemma splits_of_double_slash: "splits_of (a @ ''//'' @ b) = splits_of (a @ ''/'' @ b)"
proof -
  have "splits_of (a @ ''/'' @ (''/'' @ b)) = splits_of a @ splits_of (''/'' @ b)"
    by (rule splits_of_append_slash)
  also have "\<dots> = splits_of a @ splits_of b"
    by (simp only: splits_of_leading_slash)
  also have "\<dots> = splits_of (a @ ''/'' @ b)"
    by (rule splits_of_append_slash [symmetric])
  finally show ?thesis by simp
qed

lemma msg_subname_cong: "splits_of a = splits_of b \<Longrightarrow> msg_subname a = msg_subname b"
  by (simp add: msg_subname_def)

lemma srv_subname_cong: "splits_of a = splits_of b \<Longrightarrow> srv_subname a = srv_subname b"
  by (simp add: srv_subname_def)

lemma with_fallback_same_splits:
  assumes inv: "cache_inv k st" and eq: "splits_of a = splits_of b"
  shows "calls (snd (with_fallback P a sub dflt k st))
           = calls (snd (with_fallback P b sub dflt k st))
       \<and> (fst (with_fallback P a sub dflt k st) = fst (with_fallback P b sub dflt k st)
          \<or> (fst (with_fallback P a sub dflt k st) = Inl (InvalidTypeStringException a)
              \<and> fst (with_fallback P b sub dflt k st) = Inl (InvalidTypeStringException b)))"
proof (cases "parsed a")
  case None
  then have "parsed b = None" using parsed_cong [OF eq] by simp
  with None inv show ?thesis
    by (simp add: with_fallback_malformed cache_inv_parsed)
next
  case (Some p)
  obtain m c where p: "p = (m, c)" by (cases p)
  from Some p have pa: "parsed a = Some (m, c)" by simp
  then have pb: "parsed b = Some (m, c)" using parsed_cong [OF eq] by simp
  from with_fallback_same_pair [OF inv pa pb, of P sub dflt] show ?thesis by simp
qed

lemma resolve_same_splits:
  fixes P :: "('m, 'h, 'x) provider"
  assumes inv: "cache_inv k st" and eq: "splits_of a = splits_of b"
  shows "calls (snd (resolve k P a st)) = calls (snd (resolve k P b st))
       \<and> (fst (resolve k P a st) = fst (resolve k P b st)
          \<or> (fst (resolve k P a st) = Inl (InvalidTypeStringException a)
              \<and> fst (resolve k P b st) = Inl (InvalidTypeStringException b)))"
proof (cases k)
  case Msgs
  show ?thesis
    using with_fallback_same_splits [OF inv eq, of P "msg_subname a" "''msg''"]
    unfolding resolve_eq Msgs msg_subname_cong [OF eq] by simp
next
  case Srvs
  show ?thesis
  proof (cases "srv_subname b :: 'x error + string")
    case (Inl e)
    then show ?thesis unfolding resolve_eq Srvs srv_subname_cong [OF eq] by simp
  next
    case (Inr sub)
    then show ?thesis
      using with_fallback_same_splits [OF inv eq, of P sub "''srv''"]
      unfolding resolve_eq Srvs srv_subname_cong [OF eq] by simp
  qed
qed

text \<open>
  Claim C8. Empty segments are dropped before an identifier is interpreted: a slash more
  next to a slash, at the start or at the end does not change the list of segments. Two
  identifiers with the same non-empty segments are parsed to the same pair (or both are
  refused), get the same subname as message and as service, and, resolved as message or
  as service in a state the program can reach, make the same calls to the module system
  and return the same class; if they fail, they fail with the same exception, which for
  \<^verbatim>\<open>InvalidTypeStringException\<close> names the identifier that was given.
\<close>

theorem extra_slashes_ignored:
  fixes P :: "('m, 'h, 'x) provider"
  assumes "reachable P st" and "splits_of ts1 = splits_of ts2"
  shows
  "((splittype ts1 :: 'x error + (string \<times> string)) = Inr p
      \<longleftrightarrow> (splittype ts2 :: 'x error + (string \<times> string)) = Inr p)
   \<and> ((splittype ts1 :: 'x error + (string \<times> string)) = Inl (InvalidTypeStringException ts1)
      \<longleftrightarrow> (splittype ts2 :: 'x error + (string \<times> string)) = Inl (InvalidTypeStringException ts2))
   \<and> msg_subname ts1 = msg_subname ts2
   \<and> (srv_subname ts1 :: 'x error + string) = srv_subname ts2
   \<and> calls (snd (resolve k P ts1 st)) = calls (snd (resolve k P ts2 st))
   \<and> (fst (resolve k P ts1 st) = Inr v \<longleftrightarrow> fst (resolve k P ts2 st) = Inr v)
   \<and> (fst (resolve k P ts1 st) = fst (resolve k P ts2 st)
      \<or> (fst (resolve k P ts1 st) = Inl (InvalidTypeStringException ts1)
          \<and> fst (resolve k P ts2 st) = Inl (InvalidTypeStringException ts2)))
   \<and> splits_of (a @ ''//'' @ b) = splits_of (a @ ''/'' @ b)
   \<and> splits_of (''/'' @ a) = splits_of a
   \<and> splits_of (a @ ''/'') = splits_of a"
proof -
  note r = resolve_same_splits [OF reachable_inv [OF assms(1), of k] assms(2), of P]
  have 1: "(splittype ts1 :: 'x error + (string \<times> string)) = Inr p
      \<longleftrightarrow> (splittype ts2 :: 'x error + (string \<times> string)) = Inr p"
    unfolding splittype_parsed parsed_cong [OF assms(2)] by (simp split: option.splits)
  have 2: "(splittype ts1 :: 'x error + (string \<times> string)) = Inl (InvalidTypeStringException ts1)
      \<longleftrightarrow> (splittype ts2 :: 'x error + (string \<times> string)) = Inl (InvalidTypeStringException ts2)"
    unfolding splittype_parsed parsed_cong [OF assms(2)] by (simp split: option.splits)
  have 3: "fst (resolve k P ts1 st) = Inr v \<longleftrightarrow> fst (resolve k P ts2 st) = Inr v"
    using r by auto
  from 1 2 3 r msg_subname_cong [OF assms(2)] srv_subname_cong [OF assms(2)]
    splits_of_double_slash [of a b] splits_of_leading_slash [of a]
    splits_of_trailing_slash [of a]
  show ?thesis by blast
qed

lemma splits_pkg_slash_slash_Cls: "splits_of ''pkg//Cls'' = splits_of ''pkg/Cls''"
  by (simp add: splits_of_def py_split_def)

theorem extra_slashes_ignored_witness:
  "reachable any_provider init_state
   \<and> splits_of ''pkg//Cls'' = splits_of ''pkg/Cls''
   \<and> (splittype ''pkg//Cls'' :: unit error + (string \<times> string)) = Inr (''pkg'', ''Cls'')
   \<and> calls (snd (resolve Msgs any_provider ''pkg//Cls'' init_state))
       = calls (snd (resolve Msgs any_provider ''pkg/Cls'' init_state))
   \<and> fst (resolve Msgs any_provider ''pkg//Cls'' init_state)
       = Inr (Cls (''pkg.msg'', ''Cls''))"
proof -
  have r: "reachable any_provider init_state" by (rule reach_init)
  have p: "(splittype ''pkg/Cls'' :: unit error + (string \<times> string)) = Inr (''pkg'', ''Cls'')"
    by (simp add: splittype_def splits_of_def py_split_def)
  note t = extra_slashes_ignored [OF r splits_pkg_slash_slash_Cls,
      of "(''pkg'', ''Cls'')" Msgs "Cls (''pkg.msg'', ''Cls'')"]
  from t p any_provider_msg_pkg_Cls r splits_pkg_slash_slash_Cls
  show ?thesis by (simp del: resolve.simps)
qed

lemma parsed_first_last:
  assumes "parsed ts = Some (m, c)"
  shows "m = hd (splits_of ts) \<and> c = last (splits_of ts)"
proof -
  have ne: "splits_of ts \<noteq> []" using assms by (auto simp: parsed_def Let_def split: if_splits)
  from assms have "m = splits_of ts ! 0 \<and> c = splits_of ts ! (length (splits_of ts) - 1)"
    by (auto simp: parsed_def Let_def split: if_splits)
  with ne show ?thesis by (simp add: hd_conv_nth last_conv_nth)
qed

lemma parsed_of_shape:
  assumes "accepted_shape ts" "splits_of ts = pkg # mid @ [cls]"
  shows "parsed ts = Some (pkg, cls)"
proof -
  from assms(1) obtain m c where p: "parsed ts = Some (m, c)"
    unfolding parsed_accepted by auto
  from parsed_first_last [OF p] assms(2) have "m = pkg" "c = cls" by simp_all
  with p show ?thesis by simp
qed

text \<open>
  Claim C10, as amended. Take two identifiers with the same first segment (package) and
  the same last segment (class name), whatever lies between, where the second has a
  shape that \<^verbatim>\<open>_splittype\<close> accepts (two segments, three, or four with \<^verbatim>\<open>"action"\<close>
  second) and, for a service, its subname is computed without an exception. Once the first
  has been resolved to a class, resolving the second returns that class and leaves the
  state as it is: no call to the module system, and no new entry in the dictionary.
\<close>

theorem same_package_and_class_share_entry:
  fixes P :: "('m, 'h, 'x) provider"
  assumes "reachable P st"
    and "resolve k P ts1 st = (Inr (Cls h), st1)"
    and "splits_of ts1 = pkg # mid1 @ [cls]"
    and "splits_of ts2 = pkg # mid2 @ [cls]"
    and "accepted_shape ts2"
    and "k = Msgs \<or> (srv_subname ts2 :: 'x error + string) = Inr sub"
  shows "fst (resolve k P ts2 st1) = Inr (Cls h) \<and> snd (resolve k P ts2 st1) = st1
         \<and> calls (snd (resolve k P ts2 st1)) = calls st1"
proof -
  have inv: "cache_inv k st" using assms(1) by (rule reachable_inv)
  have "st1 = snd (resolve k P ts1 st)" using assms(2) by simp
  then have "reachable P st1" using assms(1) by (simp add: reach_step del: resolve.simps)
  then have inv1: "cache_inv k st1" by (rule reachable_inv)
  from resolve_success [OF assms(2)] obtain s d
    where "with_fallback P ts1 s d k st = (Inr (Cls h), st1)" by blast
  from with_fallback_success_cache [OF inv this] obtain m c
    where p1: "parsed ts1 = Some (m, c)" and c1: "cache_of k st1 (m @ ''/'' @ c) = Some (Cls h)"
    by blast
  from parsed_first_last [OF p1] assms(3) have "m = pkg" "c = cls" by simp_all
  with c1 have n: "get_from_cache k st1 (pkg @ ''/'' @ cls) = Cls h"
    by (simp add: get_from_cache_def)
  note p2 = parsed_of_shape [OF assms(5,4)]
  have w: "with_fallback P ts2 s' d' k st1 = (Inr (Cls h), st1)" for s' d'
    using inv1 p2 n by (rule with_fallback_norm_present)
  have "resolve k P ts2 st1 = (Inr (Cls h), st1)"
  proof (cases k)
    case Msgs
    then show ?thesis unfolding resolve_eq
      using w [of "msg_subname ts2" "''msg''"] by simp
  next
    case Srvs
    with assms(6) have "(srv_subname ts2 :: 'x error + string) = Inr sub" by simp
    with Srvs show ?thesis unfolding resolve_eq
      using w [of sub "''srv''"] by simp
  qed
  then show ?thesis by simp
qed

lemma splits_pkg_a_Cls: "splits_of ''pkg/a/Cls'' = [''pkg'', ''a'', ''Cls'']"
  by (simp add: splits_of_def py_split_def)

lemma splits_pkg_b_Cls: "splits_of ''pkg/b/Cls'' = [''pkg'', ''b'', ''Cls'']"
  by (simp add: splits_of_def py_split_def)

lemma splits_pkg_a_b_Cls: "splits_of ''pkg/a/b/Cls'' = [''pkg'', ''a'', ''b'', ''Cls'']"
  by (simp add: splits_of_def py_split_def)

lemma any_provider_msg_pkg_a_Cls:
  "fst (resolve Msgs any_provider ''pkg/a/Cls'' init_state) = Inr (Cls (''pkg.a'', ''Cls''))"
  by (simp add: get_message_class_def get_msg_class_def msg_try_def get_class_def
      get_from_cache_def init_state_def splittype_def splits_pkg_a_Cls
      msg_subname_def load_class_def any_provider_def Let_def)

theorem same_package_and_class_share_entry_witness:
  "reachable any_provider init_state
   \<and> fst (resolve Msgs any_provider ''pkg/a/Cls'' init_state) = Inr (Cls (''pkg.a'', ''Cls''))
   \<and> splits_of ''pkg/a/Cls'' = ''pkg'' # [''a''] @ [''Cls'']
   \<and> splits_of ''pkg/b/Cls'' = ''pkg'' # [''b''] @ [''Cls'']
   \<and> accepted_shape ''pkg/b/Cls''
   \<and> fst (resolve Msgs any_provider ''pkg/b/Cls''
            (snd (resolve Msgs any_provider ''pkg/a/Cls'' init_state)))
       = Inr (Cls (''pkg.a'', ''Cls''))
   \<and> calls (snd (resolve Msgs any_provider ''pkg/b/Cls''
                   (snd (resolve Msgs any_provider ''pkg/a/Cls'' init_state))))
       = calls (snd (resolve Msgs any_provider ''pkg/a/Cls'' init_state))"
proof -
  let ?st1 = "snd (resolve Msgs any_provider ''pkg/a/Cls'' init_state)"
  have r: "reachable any_provider init_state" by (rule reach_init)
  have e: "resolve Msgs any_provider ''pkg/a/Cls'' init_state
             = (Inr (Cls (''pkg.a'', ''Cls'')), ?st1)"
    using any_provider_msg_pkg_a_Cls by (simp add: prod_eq_iff)
  have s1: "splits_of ''pkg/a/Cls'' = ''pkg'' # [''a''] @ [''Cls'']"
    by (simp add: splits_pkg_a_Cls)
  have s2: "splits_of ''pkg/b/Cls'' = ''pkg'' # [''b''] @ [''Cls'']"
    by (simp add: splits_pkg_b_Cls)
  have a: "accepted_shape ''pkg/b/Cls''"
    by (simp add: accepted_shape_def splits_pkg_b_Cls)
  have k: "Msgs = Msgs \<or> (srv_subname ''pkg/b/Cls'' :: unit error + string) = Inr ''b''"
    by simp
  from same_package_and_class_share_entry [OF r e s1 s2 a k]
    r any_provider_msg_pkg_a_Cls s1 s2 a
  show ?thesis by (simp del: resolve.simps)
qed

text \<open>The claim as it was stated fails: \<^verbatim>\<open>"pkg/a/Cls"\<close> and \<^verbatim>\<open>"pkg/a/b/Cls"\<close> have
  three and four segments, the same package and the same class name; after the first has
  been resolved as a message, the second is refused by \<^verbatim>\<open>_splittype\<close>.\<close>

theorem same_package_and_class_counterexample:
  "splits_of ''pkg/a/Cls'' = [''pkg'', ''a'', ''Cls'']
   \<and> splits_of ''pkg/a/b/Cls'' = [''pkg'', ''a'', ''b'', ''Cls'']
   \<and> fst (get_message_class any_provider ''pkg/a/Cls'' init_state)
       = Inr (Cls (''pkg.a'', ''Cls''))
   \<and> fst (get_message_class any_provider ''pkg/a/b/Cls''
            (snd (get_message_class any_provider ''pkg/a/Cls'' init_state)))
       = Inl (InvalidTypeStringException ''pkg/a/b/Cls'')"
proof -
  have "fst (get_message_class any_provider ''pkg/a/b/Cls''
            (snd (get_message_class any_provider ''pkg/a/Cls'' init_state)))
       = Inl (InvalidTypeStringException ''pkg/a/b/Cls'')"
    by (simp add: get_message_class_def get_msg_class_def msg_try_def get_class_def
        get_from_cache_def init_state_def splittype_def splits_pkg_a_Cls splits_pkg_a_b_Cls
        msg_subname_def load_class_def any_provider_def Let_def)
  with any_provider_msg_pkg_a_Cls splits_pkg_a_Cls splits_pkg_a_b_Cls
  show ?thesis by simp
qed

end
